theory Spec2Isabelle
  imports Main "HOL-Library.Word" "HOL-Library.Monad_Syntax"
begin

section \<open>EasyFlash environment variables, wear leveling mode (flash\_env\_wl.c)\<close>

text \<open>
  A shallow embedding of \<^verbatim>\<open>src/flash/src/flash_env_wl.c\<close>.

  \<^item> \<^verbatim>\<open>uint32_t\<close> and \<^verbatim>\<open>size_t\<close> are 32-bit words (the file casts pointers to
    \<^verbatim>\<open>uint32_t\<close>), \<^verbatim>\<open>uint16_t\<close> is a 16-bit word; \<open>+\<close>, \<open>-\<close>, \<open>*\<close> wrap.
  \<^item> A byte is a \<open>char\<close>; a C string argument is the list of its characters without the
    terminating NUL.
  \<^item> The static variables that \<^verbatim>\<open>flash_env_init\<close> sets once are the record \<open>env_cfg\<close>;
    the RAM cache, the current data section address and the flash device are the
    record \<open>env_state\<close>, passed through every function.
  \<^item> A pointer into the cache is the offset of the byte, a natural number: pointer
    arithmetic does not wrap.
  \<^item> A failed \<^verbatim>\<open>FLASH_ASSERT\<close> and a memory access outside a buffer do not return:
    every function returns an \<open>option\<close>, and \<open>None\<close> is that outcome.
\<close>

type_synonym u32 = "32 word"
type_synonym u16 = "16 word"

abbreviation NUL :: char where
  "NUL \<equiv> CHR 0x00"

text \<open>Modelled from the spec: the type \<^verbatim>\<open>FlashErrCode\<close> is declared in \<^verbatim>\<open>flash.h\<close>, which is
  not in the source. These are the six values that the file returns or tests.\<close>

datatype FlashErrCode =
    FLASH_NO_ERR
  | FLASH_ERASE_ERR
  | FLASH_WRITE_ERR
  | FLASH_ENV_NAME_ERR
  | FLASH_ENV_NAME_EXIST
  | FLASH_ENV_FULL

text \<open>
  The statics of the file that are written only by \<^verbatim>\<open>flash_env_init\<close>. The default set
  is the list of its (key, value) pairs, \<^verbatim>\<open>default_env_set_size\<close> is its length.
  \<open>crc_check\<close> is the compile-time switch \<^verbatim>\<open>FLASH_ENV_USING_CRC_CHECK\<close>, and
  \<open>calc_crc32\<close> the external function \<^verbatim>\<open>calc_crc32(crc, buf, size)\<close>.
\<close>

record env_cfg =
  env_start_addr :: u32
  env_total_size :: u32
  flash_erase_min_size :: u32
  default_env_set :: "(string \<times> string) list"
  crc_check :: bool
  calc_crc32 :: "u32 \<Rightarrow> char list \<Rightarrow> u32"

text \<open>
  The RAM cache \<^verbatim>\<open>env_cache\<close> is kept as its parts: word 0 (\<open>cache_end_addr\<close>), the CRC
  word of a CRC build (\<open>cache_data_crc\<close>) and the bytes from offset
  \<^verbatim>\<open>ENV_PARAM_PART_BYTE_SIZE\<close> to the end of the buffer (\<open>cache_detail\<close>). The code
  reaches the parameter words only by index and the detail bytes only from
  \<^verbatim>\<open>env_cache + ENV_PARAM_PART_BYTE_SIZE\<close> upwards, so the two never alias.

  The flash device: its bytes by address, the outcomes of the erase and write calls
  still to come (\<open>False\<close> is a fault; a call after the end of the list succeeds), and
  the (address, size) of every erase call made so far.
\<close>

record env_state =
  cache_end_addr :: u32
  cache_data_crc :: u32
  cache_detail :: "char list"
  cur_using_data_addr :: u32
  flash_mem :: "u32 \<Rightarrow> char"
  flash_faults :: "bool list"
  flash_erased :: "(u32 \<times> u32) list"

definition ENV_PARAM_PART_BYTE_SIZE :: "env_cfg \<Rightarrow> u32" where
  "ENV_PARAM_PART_BYTE_SIZE cfg = (if crc_check cfg then 8 else 4)"

text \<open>Modelled from the spec: the macro \<^verbatim>\<open>FLASH_ASSERT\<close> of \<^verbatim>\<open>flash.h\<close> is not in the
  source. A violated precondition is fatal: the call does not return.\<close>

definition FLASH_ASSERT :: "bool \<Rightarrow> unit option" where
  "FLASH_ASSERT b = (if b then Some () else None)"

subsection \<open>Buffers and C strings\<close>

text \<open>The C string that starts at offset \<open>p\<close> of a buffer; \<open>None\<close> when no NUL follows
  inside the buffer (\<^verbatim>\<open>strlen\<close> and \<^verbatim>\<open>strstr\<close>, which are taken to read a string up to its
  terminator, would read past the end of the buffer).\<close>

definition cstr_at :: "char list \<Rightarrow> nat \<Rightarrow> string option" where
  "cstr_at buf p =
     (if NUL \<in> set (drop p buf) then Some (takeWhile (\<lambda>c. c \<noteq> NUL) (drop p buf)) else None)"

text \<open>\<^verbatim>\<open>strstr(haystack, needle)\<close>: the offset of the first occurrence, \<open>None\<close> for NULL.\<close>

fun strstr :: "string \<Rightarrow> string \<Rightarrow> nat option" where
  "strstr [] n = (if n = [] then Some 0 else None)"
| "strstr (h # hs) n =
     (if take (length n) (h # hs) = n then Some 0 else map_option Suc (strstr hs n))"

text \<open>Writing the bytes \<open>xs\<close> at offset \<open>p\<close> of a buffer (a copy loop, or \<^verbatim>\<open>memcpy\<close> from
  another buffer); \<open>None\<close> when the bytes do not fit.\<close>

definition store_at :: "char list \<Rightarrow> nat \<Rightarrow> char list \<Rightarrow> char list option" where
  "store_at buf p xs =
     (if p + length xs \<le> length buf then Some (take p buf @ xs @ drop (p + length xs) buf)
      else None)"

text \<open>\<^verbatim>\<open>memcpy(buf + dst, buf + src, n)\<close> inside one buffer with \<open>dst \<le> src\<close>, as a
  copy that runs from the low address upwards performs it: byte \<open>dst + i\<close> receives what
  byte \<open>src + i\<close> held before the call. A copy of no bytes touches nothing.\<close>

definition memcpy :: "char list \<Rightarrow> nat \<Rightarrow> nat \<Rightarrow> nat \<Rightarrow> char list option" where
  "memcpy buf dst src n =
     (if n = 0 then Some buf
      else if src + n \<le> length buf \<and> dst + n \<le> length buf
      then Some (take dst buf @ take n (drop src buf) @ drop (dst + n) buf)
      else None)"

subsection \<open>Addresses and sizes\<close>

definition get_env_start_addr :: "env_cfg \<Rightarrow> u32 option" where
  "get_env_start_addr cfg = do {
     FLASH_ASSERT (env_start_addr cfg \<noteq> 0);
     Some (env_start_addr cfg) }"

definition get_cur_using_data_addr :: "env_state \<Rightarrow> u32 option" where
  "get_cur_using_data_addr s = do {
     FLASH_ASSERT (cur_using_data_addr s \<noteq> 0);
     Some (cur_using_data_addr s) }"

definition set_cur_using_data_addr :: "u32 \<Rightarrow> env_state \<Rightarrow> env_state" where
  "set_cur_using_data_addr using_data_addr s = s\<lparr>cur_using_data_addr := using_data_addr\<rparr>"

definition get_env_detail_addr :: "env_cfg \<Rightarrow> env_state \<Rightarrow> u32 option" where
  "get_env_detail_addr cfg s = do {
     FLASH_ASSERT (cur_using_data_addr s \<noteq> 0);
     Some (cur_using_data_addr s + ENV_PARAM_PART_BYTE_SIZE cfg) }"

definition get_env_detail_end_addr :: "env_state \<Rightarrow> u32" where
  "get_env_detail_end_addr s = cache_end_addr s"

definition set_env_detail_end_addr :: "u32 \<Rightarrow> env_state \<Rightarrow> env_state" where
  "set_env_detail_end_addr end_addr s = s\<lparr>cache_end_addr := end_addr\<rparr>"

definition get_env_detail_size :: "env_cfg \<Rightarrow> env_state \<Rightarrow> u32 option" where
  "get_env_detail_size cfg s = do {
     a \<leftarrow> get_env_detail_addr cfg s;
     Some (get_env_detail_end_addr s - a) }"

definition flash_get_env_total_size :: "env_cfg \<Rightarrow> u32 option" where
  "flash_get_env_total_size cfg = do {
     FLASH_ASSERT (env_total_size cfg \<noteq> 0);
     Some (env_total_size cfg) }"

definition flash_get_env_used_size :: "env_cfg \<Rightarrow> env_state \<Rightarrow> u32 option" where
  "flash_get_env_used_size cfg s = do {
     a \<leftarrow> get_env_start_addr cfg;
     Some (get_env_detail_end_addr s - a) }"

subsection \<open>The record store in the cache\<close>

text \<open>The storage length of a record: \<^verbatim>\<open>if (n % 4 != 0) n = (n / 4 + 1) * 4\<close>, at the
  width of the variable that holds it.\<close>

definition align4 :: "'a::len word \<Rightarrow> 'a word" where
  "align4 n = (if n mod 4 \<noteq> 0 then (n div 4 + 1) * 4 else n)"

text \<open>
  \<^verbatim>\<open>write_env\<close>. \<^verbatim>\<open>env_str_length\<close> is a \<^verbatim>\<open>uint16_t\<close>; in the capacity check it is
  converted to \<^verbatim>\<open>size_t\<close>. \<^verbatim>\<open>env_str\<close> is a fresh buffer of \<^verbatim>\<open>env_str_length\<close> bytes
  (\<^verbatim>\<open>flash_malloc\<close> is taken to succeed), zeroed by \<^verbatim>\<open>memset\<close>, then filled by the two
  copy loops and the store of the equal sign. The \<^verbatim>\<open>memcpy\<close> target
  \<^verbatim>\<open>(char *) env_cache + ENV_PARAM_PART_BYTE_SIZE + get_env_detail_size()\<close> is offset
  \<^verbatim>\<open>get_env_detail_size()\<close> of the detail bytes.
\<close>

definition write_env ::
  "env_cfg \<Rightarrow> string \<Rightarrow> string \<Rightarrow> env_state \<Rightarrow> (FlashErrCode \<times> env_state) option" where
  "write_env cfg key val s = do {
     let env_str_length = align4 (of_nat (length key + length val + 2) :: u16);
     detail_size \<leftarrow> get_env_detail_size cfg s;
     total_size \<leftarrow> flash_get_env_total_size cfg;
     if (ucast env_str_length :: u32) + detail_size \<ge> total_size then Some (FLASH_ENV_FULL, s)
     else do {
       env_str \<leftarrow> Some (replicate (unat env_str_length) NUL);
       env_str \<leftarrow> store_at env_str 0 key;
       env_str \<leftarrow> store_at env_str (length key) ''='';
       env_str \<leftarrow> store_at env_str (length key + 1) val;
       detail \<leftarrow> store_at (cache_detail s) (unat detail_size) env_str;
       Some (FLASH_NO_ERR,
             set_env_detail_end_addr (get_env_detail_end_addr s + ucast env_str_length)
               (s\<lparr>cache_detail := detail\<rparr>))
     }
   }"

text \<open>The test \<^verbatim>\<open>env_bak && (env_bak[strlen(key)] == '=')\<close> of \<^verbatim>\<open>find_env\<close> on the string
  \<open>r\<close> that starts at \<^verbatim>\<open>env\<close>. The byte \<^verbatim>\<open>env_bak[strlen(key)]\<close> is a character of \<open>r\<close> or
  the NUL behind it.\<close>

definition env_matches :: "string \<Rightarrow> string \<Rightarrow> bool" where
  "env_matches r key =
     (case strstr r key of
        None \<Rightarrow> False
      | Some i \<Rightarrow> i + length key < length r \<and> r ! (i + length key) = CHR ''='')"

text \<open>The \<^verbatim>\<open>while (env < env_end)\<close> loop of \<^verbatim>\<open>find_env\<close>; \<open>env\<close> and \<open>env_end\<close> are
  offsets from \<^verbatim>\<open>env_start\<close>. \<open>Some None\<close> is the NULL result, \<open>Some (Some p)\<close> the
  record at offset \<open>p\<close> of the detail bytes.\<close>

function find_env_loop :: "char list \<Rightarrow> string \<Rightarrow> nat \<Rightarrow> nat \<Rightarrow> nat option option" where
  "find_env_loop buf key env_end env =
     (if env < env_end then
        (case cstr_at buf env of
           None \<Rightarrow> None
         | Some r \<Rightarrow>
             if env_matches r key then Some (Some env)
             else find_env_loop buf key env_end (env + length r + 1))
      else Some None)"
  by pat_completeness auto
termination
  by (relation "measure (\<lambda>(buf, key, env_end, env). env_end - env)") auto

definition find_env :: "env_cfg \<Rightarrow> string \<Rightarrow> env_state \<Rightarrow> nat option option" where
  "find_env cfg key s = do {
     FLASH_ASSERT (cur_using_data_addr s \<noteq> 0);
     if key = [] then Some None
     else do {
       detail_size \<leftarrow> get_env_detail_size cfg s;
       if detail_size = 0 then Some None
       else find_env_loop (cache_detail s) key (unat detail_size) 0
     }
   }"

definition create_env ::
  "env_cfg \<Rightarrow> string \<Rightarrow> string \<Rightarrow> env_state \<Rightarrow> (FlashErrCode \<times> env_state) option" where
  "create_env cfg key val s =
     (if key = [] then Some (FLASH_ENV_NAME_ERR, s)
      else if strstr key ''='' \<noteq> None then Some (FLASH_ENV_NAME_ERR, s)
      else do {
        found \<leftarrow> find_env cfg key s;
        if found \<noteq> None then Some (FLASH_ENV_NAME_EXIST, s)
        else write_env cfg key val s
      })"

text \<open>
  \<^verbatim>\<open>flash_del_env\<close>. \<^verbatim>\<open>(uint32_t) del_env_str - (uint32_t) env_cache\<close> is the offset of the
  record from the start of the cache, that is \<^verbatim>\<open>ENV_PARAM_PART_BYTE_SIZE\<close> plus its
  offset in the detail bytes.
\<close>

definition flash_del_env ::
  "env_cfg \<Rightarrow> string \<Rightarrow> env_state \<Rightarrow> (FlashErrCode \<times> env_state) option" where
  "flash_del_env cfg key s =
     (if key = [] then Some (FLASH_ENV_NAME_ERR, s)
      else if strstr key ''='' \<noteq> None then Some (FLASH_ENV_NAME_ERR, s)
      else do {
        found \<leftarrow> find_env cfg key s;
        case found of
          None \<Rightarrow> Some (FLASH_ENV_NAME_ERR, s)
        | Some del_env_str \<Rightarrow> do {
            r \<leftarrow> cstr_at (cache_detail s) del_env_str;
            let del_env_length = align4 ((of_nat (length r) :: u32) + 1);
            detail_size \<leftarrow> get_env_detail_size cfg s;
            let remain_env_length =
                  detail_size - (ENV_PARAM_PART_BYTE_SIZE cfg + of_nat del_env_str);
            detail \<leftarrow> memcpy (cache_detail s) del_env_str
                        (del_env_str + unat del_env_length) (unat remain_env_length);
            Some (FLASH_NO_ERR,
                  set_env_detail_end_addr (get_env_detail_end_addr s - del_env_length)
                    (s\<lparr>cache_detail := detail\<rparr>))
          }
      })"

definition flash_set_env ::
  "env_cfg \<Rightarrow> string \<Rightarrow> string \<Rightarrow> env_state \<Rightarrow> (FlashErrCode \<times> env_state) option" where
  "flash_set_env cfg key val s =
     (if val = [] then flash_del_env cfg key s
      else do {
        found \<leftarrow> find_env cfg key s;
        (result, s1) \<leftarrow> (if found \<noteq> None then flash_del_env cfg key s
                          else Some (FLASH_NO_ERR, s));
        if result = FLASH_NO_ERR then create_env cfg key val s1 else Some (result, s1)
      })"

text \<open>\<^verbatim>\<open>flash_get_env\<close>: \<open>Some None\<close> is the NULL result, \<open>Some (Some v)\<close> the string
  that starts behind the first equal sign of the record.\<close>

definition flash_get_env :: "env_cfg \<Rightarrow> string \<Rightarrow> env_state \<Rightarrow> string option option" where
  "flash_get_env cfg key s = do {
     found \<leftarrow> find_env cfg key s;
     case found of
       None \<Rightarrow> Some None
     | Some env_cache_addr \<Rightarrow> do {
         r \<leftarrow> cstr_at (cache_detail s) env_cache_addr;
         case strstr r ''='' of
           None \<Rightarrow> Some None
         | Some i \<Rightarrow> Some (Some (drop (i + 1) r))
       }
   }"

subsection \<open>The flash device\<close>

text \<open>The four bytes of a word in memory and back, least significant byte first.\<close>

definition le_bytes :: "u32 \<Rightarrow> char list" where
  "le_bytes w =
     [char_of (unat w), char_of (unat (drop_bit 8 w)),
      char_of (unat (drop_bit 16 w)), char_of (unat (drop_bit 24 w))]"

definition word_of_bytes :: "char list \<Rightarrow> u32" where
  "word_of_bytes bs = foldr (\<lambda>b w. of_nat (of_char b) + 256 * w) bs 0"

definition flash_op_ok :: "env_state \<Rightarrow> bool" where
  "flash_op_ok s = (case flash_faults s of [] \<Rightarrow> True | ok # rest \<Rightarrow> ok)"

definition flash_op_done :: "env_state \<Rightarrow> env_state" where
  "flash_op_done s = s\<lparr>flash_faults := tl (flash_faults s)\<rparr>"

text \<open>Modelled from the spec: the port function \<^verbatim>\<open>flash_read(addr, buf, size)\<close> is not
  in the source file. It always succeeds and yields the \<open>n\<close> bytes from \<open>addr\<close> upwards.\<close>

definition flash_read :: "u32 \<Rightarrow> nat \<Rightarrow> env_state \<Rightarrow> char list" where
  "flash_read addr n s = map (\<lambda>i. flash_mem s (addr + of_nat i)) [0..<n]"

text \<open>Modelled from the spec: the port function \<^verbatim>\<open>flash_erase(addr, size)\<close> is not in
  the source file. It returns success or an erase fault; on success the bytes of the range
  read \<open>0xFF\<close>, on a fault the memory is left as it was. The call is recorded.\<close>

definition flash_erase :: "u32 \<Rightarrow> u32 \<Rightarrow> env_state \<Rightarrow> FlashErrCode \<times> env_state" where
  "flash_erase addr n s =
     (let s1 = (flash_op_done s)\<lparr>flash_erased := flash_erased s @ [(addr, n)]\<rparr> in
      if flash_op_ok s
      then (FLASH_NO_ERR,
            s1\<lparr>flash_mem := (\<lambda>a. if a - addr < n then CHR 0xFF else flash_mem s a)\<rparr>)
      else (FLASH_ERASE_ERR, s1))"

text \<open>Modelled from the spec: the port function \<^verbatim>\<open>flash_write(addr, buf, size)\<close> is not
  in the source file. It returns success or a write fault; on success the range holds the
  bytes of the buffer, on a fault the memory is left as it was.\<close>

definition flash_write :: "u32 \<Rightarrow> char list \<Rightarrow> env_state \<Rightarrow> FlashErrCode \<times> env_state" where
  "flash_write addr buf s =
     (if flash_op_ok s
      then (FLASH_NO_ERR,
            (flash_op_done s)\<lparr>flash_mem :=
               (\<lambda>a. if unat (a - addr) < length buf then buf ! unat (a - addr)
                    else flash_mem s a)\<rparr>)
      else (FLASH_WRITE_ERR, flash_op_done s))"

subsection \<open>CRC of the cache\<close>

definition calc_env_crc :: "env_cfg \<Rightarrow> env_state \<Rightarrow> u32 option" where
  "calc_env_crc cfg s = do {
     detail_size \<leftarrow> get_env_detail_size cfg s;
     if unat detail_size \<le> length (cache_detail s)
     then Some (calc_crc32 cfg (calc_crc32 cfg 0 (le_bytes (cache_end_addr s)))
                  (take (unat detail_size) (cache_detail s)))
     else None }"

definition env_crc_is_ok :: "env_cfg \<Rightarrow> env_state \<Rightarrow> bool option" where
  "env_crc_is_ok cfg s = do {
     crc \<leftarrow> calc_env_crc cfg s;
     Some (crc = cache_data_crc s) }"

subsection \<open>Saving\<close>

definition save_cur_using_data_addr ::
  "env_cfg \<Rightarrow> u32 \<Rightarrow> env_state \<Rightarrow> (FlashErrCode \<times> env_state) option" where
  "save_cur_using_data_addr cfg cur_data_addr s = do {
     start \<leftarrow> get_env_start_addr cfg;
     let er = flash_erase start 4 s;
     if fst er = FLASH_NO_ERR then do {
       start \<leftarrow> get_env_start_addr cfg;
       Some (flash_write start (le_bytes cur_data_addr) (snd er)) }
     else Some er }"

text \<open>The first \<open>n\<close> bytes of \<^verbatim>\<open>env_cache\<close>, the source of \<^verbatim>\<open>flash_write\<close> in
  \<^verbatim>\<open>flash_save_env\<close>; \<open>None\<close> when the cache is shorter.\<close>

definition cache_bytes :: "env_cfg \<Rightarrow> nat \<Rightarrow> env_state \<Rightarrow> char list option" where
  "cache_bytes cfg n s =
     (let all = le_bytes (cache_end_addr s)
                @ (if crc_check cfg then le_bytes (cache_data_crc s) else [])
                @ cache_detail s
      in if n \<le> length all then Some (take n all) else None)"

text \<open>The three statements of both fault branches of \<^verbatim>\<open>flash_save_env\<close>: the move
  offset, the next data section address, the next detail end address. A division by a
  zero \<^verbatim>\<open>flash_erase_min_size\<close> does not return.\<close>

definition move_offset_addr :: "env_cfg \<Rightarrow> u32 \<Rightarrow> u32" where
  "move_offset_addr cfg env_detail_size =
     (env_detail_size div flash_erase_min_size cfg + 1) * flash_erase_min_size cfg"

definition move_to_next :: "env_cfg \<Rightarrow> u32 \<Rightarrow> env_state \<Rightarrow> env_state option" where
  "move_to_next cfg env_detail_size s = do {
     FLASH_ASSERT (flash_erase_min_size cfg \<noteq> 0);
     cur \<leftarrow> get_cur_using_data_addr s;
     let s1 = set_cur_using_data_addr (cur + move_offset_addr cfg env_detail_size) s;
     Some (set_env_detail_end_addr
             (get_env_detail_end_addr s1 + move_offset_addr cfg env_detail_size) s1) }"

text \<open>The loop condition of \<^verbatim>\<open>flash_save_env\<close>, which is also the test behind the loop.\<close>

definition slot_fits :: "env_cfg \<Rightarrow> u32 \<Rightarrow> env_state \<Rightarrow> bool option" where
  "slot_fits cfg env_detail_size s = do {
     cur \<leftarrow> get_cur_using_data_addr s;
     start \<leftarrow> get_env_start_addr cfg;
     total \<leftarrow> flash_get_env_total_size cfg;
     Some (cur + env_detail_size < start + total) }"

definition cache_crc_step :: "env_cfg \<Rightarrow> env_state \<Rightarrow> env_state option" where
  "cache_crc_step cfg s =
     (if crc_check cfg then do {
        crc \<leftarrow> calc_env_crc cfg s;
        Some (s\<lparr>cache_data_crc := crc\<rparr>) }
      else Some s)"

text \<open>The erase of one pass of the loop, and the write of a pass whose erase succeeded.\<close>

definition save_erase :: "env_cfg \<Rightarrow> u32 \<Rightarrow> env_state \<Rightarrow> (FlashErrCode \<times> env_state) option" where
  "save_erase cfg env_detail_size s = do {
     s0 \<leftarrow> cache_crc_step cfg s;
     cur \<leftarrow> get_cur_using_data_addr s0;
     Some (flash_erase cur (ENV_PARAM_PART_BYTE_SIZE cfg + env_detail_size) s0) }"

definition save_write :: "env_cfg \<Rightarrow> u32 \<Rightarrow> env_state \<Rightarrow> (FlashErrCode \<times> env_state) option" where
  "save_write cfg env_detail_size s = do {
     cur \<leftarrow> get_cur_using_data_addr s;
     buf \<leftarrow> cache_bytes cfg (unat (ENV_PARAM_PART_BYTE_SIZE cfg + env_detail_size)) s;
     Some (flash_write cur buf s) }"

text \<open>The \<^verbatim>\<open>while\<close> loop of \<^verbatim>\<open>flash_save_env\<close>, with the local \<^verbatim>\<open>result\<close> as an
  argument. Every pass that does not leave the loop has consumed a fault of the device.\<close>

function flash_save_loop ::
  "env_cfg \<Rightarrow> u32 \<Rightarrow> FlashErrCode \<Rightarrow> env_state \<Rightarrow> (FlashErrCode \<times> env_state) option" where
  "flash_save_loop cfg env_detail_size result s =
     (case slot_fits cfg env_detail_size s of
        None \<Rightarrow> None
      | Some fits \<Rightarrow>
          if \<not> fits then Some (result, s)
          else
            (case save_erase cfg env_detail_size s of
               None \<Rightarrow> None
             | Some er \<Rightarrow>
                 if fst er = FLASH_ERASE_ERR then
                   (case move_to_next cfg env_detail_size (snd er) of
                      None \<Rightarrow> None
                    | Some s2 \<Rightarrow> flash_save_loop cfg env_detail_size (fst er) s2)
                 else
                   (case save_write cfg env_detail_size (snd er) of
                      None \<Rightarrow> None
                    | Some wr \<Rightarrow>
                        if fst wr = FLASH_WRITE_ERR then
                          (case move_to_next cfg env_detail_size (snd wr) of
                             None \<Rightarrow> None
                           | Some s2 \<Rightarrow> flash_save_loop cfg env_detail_size (fst wr) s2)
                        else if fst wr = FLASH_NO_ERR then Some wr
                        else flash_save_loop cfg env_detail_size (fst wr) (snd wr))))"
  by pat_completeness auto
termination
proof (relation "measure (\<lambda>(cfg, env_detail_size, result, s). length (flash_faults s))")
  fix cfg :: env_cfg and env_detail_size :: u32 and s s2 :: env_state and er
  assume e: "save_erase cfg env_detail_size s = Some er" "fst er = FLASH_ERASE_ERR"
    and m: "move_to_next cfg env_detail_size (snd er) = Some s2"
  from e have "length (flash_faults (snd er)) < length (flash_faults s)"
    by (auto simp: save_erase_def cache_crc_step_def flash_erase_def flash_op_ok_def
        flash_op_done_def Let_def split: if_splits Option.bind_splits list.splits)
  moreover from m have "flash_faults s2 = flash_faults (snd er)"
    by (auto simp: move_to_next_def set_cur_using_data_addr_def set_env_detail_end_addr_def
        Let_def split: Option.bind_splits)
  ultimately show "((cfg, env_detail_size, fst er, s2), (cfg, env_detail_size, result, s))
      \<in> measure (\<lambda>(cfg, env_detail_size, result, s). length (flash_faults s))" for result
    by simp
next
  fix cfg :: env_cfg and env_detail_size :: u32 and s s2 :: env_state and er wr
  assume e: "save_erase cfg env_detail_size s = Some er"
    and w: "save_write cfg env_detail_size (snd er) = Some wr" "fst wr = FLASH_WRITE_ERR"
    and m: "move_to_next cfg env_detail_size (snd wr) = Some s2"
  from e have "length (flash_faults (snd er)) \<le> length (flash_faults s)"
    by (auto simp: save_erase_def cache_crc_step_def flash_erase_def flash_op_ok_def
        flash_op_done_def Let_def split: if_splits Option.bind_splits list.splits)
  moreover from w have "length (flash_faults (snd wr)) < length (flash_faults (snd er))"
    by (auto simp: save_write_def flash_write_def flash_op_ok_def flash_op_done_def
        split: if_splits Option.bind_splits list.splits)
  moreover from m have "flash_faults s2 = flash_faults (snd wr)"
    by (auto simp: move_to_next_def set_cur_using_data_addr_def set_env_detail_end_addr_def
        Let_def split: Option.bind_splits)
  ultimately show "((cfg, env_detail_size, fst wr, s2), (cfg, env_detail_size, result, s))
      \<in> measure (\<lambda>(cfg, env_detail_size, result, s). length (flash_faults s))" for result
    by simp
next
  fix cfg :: env_cfg and env_detail_size :: u32 and s :: env_state
    and er wr :: "FlashErrCode \<times> env_state"
  assume w: "save_write cfg env_detail_size (snd er) = Some wr"
    "fst wr \<noteq> FLASH_WRITE_ERR" "fst wr \<noteq> FLASH_NO_ERR"
  from w have False
    by (auto simp: save_write_def flash_write_def split: if_splits Option.bind_splits)
  then show "((cfg, env_detail_size, fst wr, snd wr), (cfg, env_detail_size, result, s))
      \<in> measure (\<lambda>(cfg, env_detail_size, result, s). length (flash_faults s))" for result
    by simp
qed simp

definition flash_save_env :: "env_cfg \<Rightarrow> env_state \<Rightarrow> (FlashErrCode \<times> env_state) option" where
  "flash_save_env cfg s = do {
     cur_data_addr_bak \<leftarrow> get_cur_using_data_addr s;
     env_detail_size \<leftarrow> get_env_detail_size cfg s;
     lp \<leftarrow> flash_save_loop cfg env_detail_size FLASH_NO_ERR s;
     fits \<leftarrow> slot_fits cfg env_detail_size (snd lp);
     if fits then do {
       cur \<leftarrow> get_cur_using_data_addr (snd lp);
       if cur \<noteq> cur_data_addr_bak then do {
         cur \<leftarrow> get_cur_using_data_addr (snd lp);
         sv \<leftarrow> save_cur_using_data_addr cfg cur (snd lp);
         Some (fst lp, snd sv) }
       else Some lp }
     else do {
       sv \<leftarrow> save_cur_using_data_addr cfg 0xFFFFFFFF (snd lp);
       Some (FLASH_ENV_FULL, snd sv) }
   }"

subsection \<open>Defaults and loading\<close>

text \<open>The \<^verbatim>\<open>for\<close> loop of \<^verbatim>\<open>flash_env_set_default\<close>: the result of every
  \<^verbatim>\<open>create_env\<close> call is dropped.\<close>

fun create_defaults :: "env_cfg \<Rightarrow> (string \<times> string) list \<Rightarrow> env_state \<Rightarrow> env_state option" where
  "create_defaults cfg [] s = Some s"
| "create_defaults cfg (kv # rest) s = do {
     cr \<leftarrow> create_env cfg (fst kv) (snd kv) s;
     create_defaults cfg rest (snd cr) }"

definition flash_env_set_default ::
  "env_cfg \<Rightarrow> env_state \<Rightarrow> (FlashErrCode \<times> env_state) option" where
  "flash_env_set_default cfg s = do {
     let result = FLASH_NO_ERR;
     FLASH_ASSERT (default_env_set cfg \<noteq> []);
     detail_addr \<leftarrow> get_env_detail_addr cfg s;
     s1 \<leftarrow> create_defaults cfg (default_env_set cfg) (set_env_detail_end_addr detail_addr s);
     sv \<leftarrow> flash_save_env cfg s1;
     Some (result, snd sv) }"

text \<open>\<^verbatim>\<open>flash_load_env\<close>. The CRC part runs in a CRC build only. In the source the brace
  that closes the innermost \<^verbatim>\<open>else\<close> stands inside the \<^verbatim>\<open>#ifdef\<close>; it is read as closing that
  branch in both builds.\<close>

definition flash_load_env :: "env_cfg \<Rightarrow> env_state \<Rightarrow> env_state option" where
  "flash_load_env cfg s = do {
     start \<leftarrow> get_env_start_addr cfg;
     let using_data_addr = word_of_bytes (flash_read start 4 s);
     if using_data_addr = 0xFFFFFFFF
        \<or> using_data_addr > env_start_addr cfg + env_total_size cfg
     then do {
       start \<leftarrow> get_env_start_addr cfg;
       let s1 = set_cur_using_data_addr (start + flash_erase_min_size cfg) s;
       cur \<leftarrow> get_cur_using_data_addr s1;
       sv \<leftarrow> save_cur_using_data_addr cfg cur s1;
       df \<leftarrow> flash_env_set_default cfg (snd sv);
       Some (snd df) }
     else do {
       let s1 = set_cur_using_data_addr using_data_addr s;
       cur \<leftarrow> get_cur_using_data_addr s1;
       let env_end_addr = word_of_bytes (flash_read cur 4 s1);
       if env_end_addr > env_start_addr cfg + env_total_size cfg
       then do {
         df \<leftarrow> flash_env_set_default cfg s1;
         Some (snd df) }
       else do {
         let s2 = set_env_detail_end_addr env_end_addr s1;
         detail_addr \<leftarrow> get_env_detail_addr cfg s2;
         detail_size \<leftarrow> get_env_detail_size cfg s2;
         detail \<leftarrow> store_at (cache_detail s2) 0 (flash_read detail_addr (unat detail_size) s2);
         let s3 = s2\<lparr>cache_detail := detail\<rparr>;
         if crc_check cfg then do {
           cur \<leftarrow> get_cur_using_data_addr s3;
           let s4 = s3\<lparr>cache_data_crc := word_of_bytes (flash_read (cur + 4) 4 s3)\<rparr>;
           ok \<leftarrow> env_crc_is_ok cfg s4;
           if \<not> ok then do {
             df \<leftarrow> flash_env_set_default cfg s4;
             Some (snd df) }
           else Some s4 }
         else Some s3 }
     }
   }"

subsection \<open>A small store for concrete runs\<close>

text \<open>A store of 64 bytes at \<open>0x1000\<close> with an erase unit of 16 bytes; the CRC stand-in
  adds the bytes up. The state has the first data section \<open>0x1010\<close> in use, an erased
  flash, and a cache whose detail bytes, detail end address and device faults are given.\<close>

definition example_cfg :: "bool \<Rightarrow> (string \<times> string) list \<Rightarrow> env_cfg" where
  "example_cfg crc dflt =
     \<lparr>env_start_addr = 0x1000, env_total_size = 0x40, flash_erase_min_size = 0x10,
      default_env_set = dflt, crc_check = crc,
      calc_crc32 = (\<lambda>crc buf. crc + of_nat (sum_list (map of_char buf)))\<rparr>"

definition example_state :: "char list \<Rightarrow> u32 \<Rightarrow> bool list \<Rightarrow> env_state" where
  "example_state detail end_addr faults =
     \<lparr>cache_end_addr = end_addr, cache_data_crc = 0, cache_detail = detail,
      cur_using_data_addr = 0x1010, flash_mem = (\<lambda>a. CHR 0xFF),
      flash_faults = faults, flash_erased = []\<rparr>"

text \<open>Detail bytes followed by stale \<open>0xFF\<close> bytes up to a buffer of \<open>n\<close> bytes.\<close>

definition stale :: "nat \<Rightarrow> char list \<Rightarrow> char list" where
  "stale n detail = detail @ replicate (n - length detail) (CHR 0xFF)"

text \<open>A default set with an empty key, a repeated key and a key with an equal sign.\<close>

definition rejected_defaults :: "(string \<times> string) list" where
  "rejected_defaults = [(''a'', ''1''), ('''', ''x''), (''a'', ''2''), (''b=c'', ''3'')]"

text \<open>The stride as the specification words it:
  \<open>ceil(detailSize / erase_unit_size) * erase_unit_size\<close>.\<close>

definition spec_stride :: "u32 \<Rightarrow> u32 \<Rightarrow> nat" where
  "spec_stride detail_size erase_unit_size =
     ((unat detail_size + unat erase_unit_size - 1) div unat erase_unit_size)
     * unat erase_unit_size"

text \<open>The erase calls of \<open>n\<close> passes of the loop that starts at the data section
  \<open>cur0\<close>: pass \<open>i\<close> erases at \<open>cur0\<close> plus \<open>i\<close> move offsets, each time the parameter
  part plus the detail size.\<close>

definition slot_erases :: "env_cfg \<Rightarrow> u32 \<Rightarrow> u32 \<Rightarrow> nat \<Rightarrow> (u32 \<times> u32) list" where
  "slot_erases cfg sz cur0 n =
     map (\<lambda>i. (cur0 + of_nat i * move_offset_addr cfg sz, ENV_PARAM_PART_BYTE_SIZE cfg + sz))
       [0..<n]"

text \<open>A flash that holds the given words at the given addresses and reads \<open>0xFF\<close>
  elsewhere.\<close>

fun flash_words :: "(u32 \<times> u32) list \<Rightarrow> u32 \<Rightarrow> char" where
  "flash_words [] a = CHR 0xFF"
| "flash_words ((addr, w) # rest) a =
     (if a - addr < 4 then le_bytes w ! unat (a - addr) else flash_words rest a)"

text \<open>The padded length of a record as the specification words it:
  \<open>align4(len(key) + len(value) + 2)\<close>, without a width.\<close>

definition spec_padded_length :: "string \<Rightarrow> string \<Rightarrow> nat" where
  "spec_padded_length key val = ((length key + length val + 2 + 3) div 4) * 4"

text \<open>The detail part of the cache is empty, or lies inside the buffer and ends with a
  NUL byte.\<close>

definition detail_ends_with_nul :: "env_cfg \<Rightarrow> env_state \<Rightarrow> bool" where
  "detail_ends_with_nul cfg s =
     (case get_env_detail_size cfg s of
        None \<Rightarrow> False
      | Some detail_size \<Rightarrow>
          detail_size = 0
          \<or> (unat detail_size \<le> length (cache_detail s)
              \<and> cache_detail s ! (unat detail_size - 1) = NUL))"

text \<open>The cache on which \<^verbatim>\<open>flash_set_env\<close> calls \<^verbatim>\<open>create_env\<close> for a value that is not
  empty: the cache after the \<^verbatim>\<open>flash_del_env\<close> of a key that \<^verbatim>\<open>find_env\<close> has found, the
  cache as it is otherwise.\<close>

definition set_env_create_state :: "env_cfg \<Rightarrow> string \<Rightarrow> env_state \<Rightarrow> env_state" where
  "set_env_create_state cfg key s =
     (case find_env cfg key s of
        Some (Some p) \<Rightarrow> (case flash_del_env cfg key s of Some del \<Rightarrow> snd del | None \<Rightarrow> s)
      | _ \<Rightarrow> s)"

text \<open>The detail part of the cache lies inside the buffer, its size is a multiple of 4,
  it is empty or ends with a NUL byte, and inside a word of 4 bytes only NUL bytes follow a
  NUL byte (the remaining part of a record is filled with NUL).\<close>

definition detail_padded :: "env_cfg \<Rightarrow> env_state \<Rightarrow> bool" where
  "detail_padded cfg s =
     (case get_env_detail_size cfg s of
        None \<Rightarrow> False
      | Some detail_size \<Rightarrow>
          unat detail_size \<le> length (cache_detail s)
          \<and> unat detail_size mod 4 = 0
          \<and> (detail_size = 0 \<or> cache_detail s ! (unat detail_size - 1) = NUL)
          \<and> list_all (\<lambda>p. if p mod 4 \<noteq> 0 \<and> cache_detail s ! (p - 1) = NUL
                          then cache_detail s ! p = NUL else True)
                [0..<unat detail_size])"

section \<open>Properties\<close>

declare find_env_loop.simps [simp del]
declare flash_save_loop.simps [simp del]

lemmas env_defs =
  FLASH_ASSERT_def ENV_PARAM_PART_BYTE_SIZE_def cstr_at_def store_at_def memcpy_def
  get_env_start_addr_def get_cur_using_data_addr_def set_cur_using_data_addr_def
  get_env_detail_addr_def get_env_detail_end_addr_def set_env_detail_end_addr_def
  get_env_detail_size_def flash_get_env_total_size_def align4_def write_env_def
  env_matches_def find_env_def create_env_def flash_del_env_def flash_set_env_def
  flash_get_env_def le_bytes_def word_of_bytes_def flash_op_ok_def flash_op_done_def
  flash_erase_def flash_write_def calc_env_crc_def env_crc_is_ok_def
  save_cur_using_data_addr_def cache_bytes_def move_offset_addr_def move_to_next_def
  slot_fits_def cache_crc_step_def save_erase_def save_write_def flash_save_env_def
  flash_env_set_default_def flash_load_env_def

lemmas example_defs = example_cfg_def example_state_def stale_def rejected_defaults_def

lemma flash_read_4:
  "flash_read a 4 s =
     [flash_mem s a, flash_mem s (a + 1), flash_mem s (a + 2), flash_mem s (a + 3)]"
  by (simp add: flash_read_def upt_rec)

lemma flash_read_0: "flash_read a 0 s = []"
  by (simp add: flash_read_def)

lemma replicate_4: "replicate 4 x = [x, x, x, x]"
  by (simp add: eval_nat_numeral)

lemmas run_simps =
  env_defs example_defs find_env_loop.simps flash_save_loop.simps Let_def
  flash_read_4 flash_read_0

subsection \<open>Words in flash\<close>

lemma nat_bytes:
  fixes n :: nat
  assumes "n < 2 ^ 32"
  shows "n mod 256 + 256 * (n div 256 mod 256) + 65536 * (n div 65536 mod 256)
         + 16777216 * (n div 16777216 mod 256) = n"
proof -
  define a where "a = n div 256"
  define b where "b = a div 256"
  define c where "c = b div 256"
  have n: "n = n mod 256 + 256 * a" by (simp add: a_def)
  have a: "a = a mod 256 + 256 * b" by (simp add: b_def)
  have b: "b = b mod 256 + 256 * c" by (simp add: c_def)
  have b': "n div 65536 = b" by (simp add: a_def b_def div_mult2_eq [symmetric])
  have c': "n div 16777216 = c" by (simp add: a_def b_def c_def div_mult2_eq [symmetric])
  have "c < 256" using assms unfolding c' [symmetric] by simp
  then have c: "c mod 256 = c" by simp
  show ?thesis
    unfolding b' c' c a_def [symmetric] using n a b by linarith
qed

lemma word_of_le_bytes: "word_of_bytes (le_bytes w) = w"
proof -
  define n where "n = unat w"
  have "n < 2 ^ 32" using unsigned_less [of w] by (simp add: n_def)
  from nat_bytes [OF this]
  have eq: "n mod 256 + 256 * (n div 256 mod 256) + 65536 * (n div 65536 mod 256)
         + 16777216 * (n div 16777216 mod 256) = n" .
  have "word_of_bytes (le_bytes w) =
        of_nat (n mod 256 + 256 * (n div 256 mod 256) + 65536 * (n div 65536 mod 256)
         + 16777216 * (n div 16777216 mod 256))"
    by (simp add: word_of_bytes_def le_bytes_def drop_bit_eq_div unat_div n_def)
  also have "\<dots> = of_nat n" by (simp only: eq)
  also have "\<dots> = w" by (simp add: n_def)
  finally show ?thesis .
qed

subsection \<open>Lookup\<close>

text \<open>
  Claim C1. The lookup is to report a record only when the key of that record is exactly
  the key asked for. \<^verbatim>\<open>find_env\<close> searches the key with \<^verbatim>\<open>strstr\<close> anywhere in the record
  and tests the byte behind the occurrence: the cache after setting \<open>ab\<close> to \<open>1\<close>
  answers the lookup of \<open>b\<close> with the record \<open>ab=1\<close>, and \<^verbatim>\<open>flash_get_env\<close> returns the
  value of \<open>ab\<close> for the key \<open>b\<close>.
\<close>

theorem find_env_reports_longer_key:
  "flash_set_env (example_cfg False []) ''ab'' ''1'' (example_state (stale 60 []) 0x1014 [])
     = Some (FLASH_NO_ERR,
             example_state (stale 60 (''ab=1'' @ [NUL, NUL, NUL, NUL])) 0x101C [])
   \<and> find_env (example_cfg False []) ''b''
     (example_state (stale 60 (''ab=1'' @ [NUL, NUL, NUL, NUL])) 0x101C []) = Some (Some 0)
   \<and> cstr_at (stale 60 (''ab=1'' @ [NUL, NUL, NUL, NUL])) 0 = Some ''ab=1''
   \<and> flash_get_env (example_cfg False []) ''b''
       (example_state (stale 60 (''ab=1'' @ [NUL, NUL, NUL, NUL])) 0x101C []) = Some (Some ''1'')"
  by (simp add: run_simps replicate_4)

subsection \<open>Deletion\<close>

text \<open>
  Claim C2. Deleting a present key is to move every byte behind the record down by the
  padded length of the record. \<^verbatim>\<open>flash_del_env\<close> takes the number of bytes to move as the
  detail size minus the offset of the record from the start of the cache, which counts the
  parameter part and not the record. In a CRC build (parameter part of 8 bytes), after
  setting \<open>a\<close> to \<open>1\<close> and \<open>b\<close> to \<open>2\<close> (two records of 4 bytes), deleting \<open>a\<close> moves no
  byte and lowers the detail end address by 4: the cache still answers \<open>a\<close> with \<open>1\<close>, and
  \<open>b\<close> is gone.
\<close>

theorem flash_del_env_loses_following_record:
  "flash_set_env (example_cfg True []) ''a'' ''1'' (example_state (stale 56 []) 0x1018 [])
     = Some (FLASH_NO_ERR, example_state (stale 56 (''a=1'' @ [NUL])) 0x101C [])
   \<and> flash_set_env (example_cfg True []) ''b'' ''2''
       (example_state (stale 56 (''a=1'' @ [NUL])) 0x101C [])
     = Some (FLASH_NO_ERR,
             example_state (stale 56 (''a=1'' @ [NUL] @ ''b=2'' @ [NUL])) 0x1020 [])
   \<and> flash_del_env (example_cfg True []) ''a''
     (example_state (stale 56 (''a=1'' @ [NUL] @ ''b=2'' @ [NUL])) 0x1020 [])
   = Some (FLASH_NO_ERR, example_state (stale 56 (''a=1'' @ [NUL] @ ''b=2'' @ [NUL])) 0x101C [])
   \<and> flash_get_env (example_cfg True []) ''a''
       (example_state (stale 56 (''a=1'' @ [NUL] @ ''b=2'' @ [NUL])) 0x101C []) = Some (Some ''1'')
   \<and> flash_get_env (example_cfg True []) ''b''
       (example_state (stale 56 (''a=1'' @ [NUL] @ ''b=2'' @ [NUL])) 0x101C []) = Some None"
  by (simp add: run_simps)

subsection \<open>Installing the defaults\<close>

text \<open>
  Claim C10. Whenever \<^verbatim>\<open>flash_env_set_default\<close> returns, it returns \<^verbatim>\<open>FLASH_NO_ERR\<close>: the
  results of the \<^verbatim>\<open>create_env\<close> calls and of \<^verbatim>\<open>flash_save_env\<close> never reach \<^verbatim>\<open>result\<close>.
\<close>

theorem flash_env_set_default_returns_no_err:
  assumes "flash_env_set_default cfg s = Some (result, s')"
  shows "result = FLASH_NO_ERR"
  using assms
  by (auto simp: flash_env_set_default_def Let_def split: Option.bind_splits)

text \<open>A run in which three of the four default entries are rejected and the save ends
  with \<^verbatim>\<open>FLASH_ENV_FULL\<close> after three erase faults.\<close>

theorem flash_env_set_default_returns_no_err_witness:
  "map_option fst (flash_env_set_default (example_cfg False rejected_defaults)
      (example_state (stale 60 []) 0 [False, False, False])) = Some FLASH_NO_ERR
   \<and> create_defaults (example_cfg False rejected_defaults) rejected_defaults
        (example_state (stale 60 []) 0x1014 [False, False, False])
      = Some (example_state (stale 60 (''a=1'' @ [NUL])) 0x1018 [False, False, False])
   \<and> map_option fst (create_env (example_cfg False rejected_defaults) '''' ''x''
        (example_state (stale 60 (''a=1'' @ [NUL])) 0x1018 [False, False, False]))
      = Some FLASH_ENV_NAME_ERR
   \<and> map_option fst (create_env (example_cfg False rejected_defaults) ''a'' ''2''
        (example_state (stale 60 (''a=1'' @ [NUL])) 0x1018 [False, False, False]))
      = Some FLASH_ENV_NAME_EXIST
   \<and> map_option fst (flash_save_env (example_cfg False rejected_defaults)
        (example_state (stale 60 (''a=1'' @ [NUL])) 0x1018 [False, False, False]))
      = Some FLASH_ENV_FULL"
proof -
  have "flash_env_set_default (example_cfg False rejected_defaults)
          (example_state (stale 60 []) 0 [False, False, False]) \<noteq> None"
    by (simp add: run_simps)
  then obtain result s' where run:
    "flash_env_set_default (example_cfg False rejected_defaults)
       (example_state (stale 60 []) 0 [False, False, False]) = Some (result, s')"
    by (cases "flash_env_set_default (example_cfg False rejected_defaults)
          (example_state (stale 60 []) 0 [False, False, False])") auto
  from flash_env_set_default_returns_no_err [OF run] have "result = FLASH_NO_ERR" .
  with run have 1: "map_option fst (flash_env_set_default (example_cfg False rejected_defaults)
      (example_state (stale 60 []) 0 [False, False, False])) = Some FLASH_NO_ERR"
    by simp
  have 2: "create_defaults (example_cfg False rejected_defaults) rejected_defaults
        (example_state (stale 60 []) 0x1014 [False, False, False])
      = Some (example_state (stale 60 (''a=1'' @ [NUL])) 0x1018 [False, False, False])"
    by (simp add: run_simps)
  have 3: "map_option fst (create_env (example_cfg False rejected_defaults) '''' ''x''
        (example_state (stale 60 (''a=1'' @ [NUL])) 0x1018 [False, False, False]))
      = Some FLASH_ENV_NAME_ERR"
    by (simp add: run_simps)
  have 4: "map_option fst (create_env (example_cfg False rejected_defaults) ''a'' ''2''
        (example_state (stale 60 (''a=1'' @ [NUL])) 0x1018 [False, False, False]))
      = Some FLASH_ENV_NAME_EXIST"
    by (simp add: run_simps)
  have 5: "map_option fst (flash_save_env (example_cfg False rejected_defaults)
        (example_state (stale 60 (''a=1'' @ [NUL])) 0x1018 [False, False, False]))
      = Some FLASH_ENV_FULL"
    by (simp add: run_simps)
  from 1 2 3 4 5 show ?thesis by blast
qed

subsection \<open>Saving: relocation after a fault\<close>

lemma flash_read_written_word:
  assumes "flash_op_ok s"
  shows "word_of_bytes (flash_read a 4 (snd (flash_write a (le_bytes w) s))) = w"
proof -
  have "flash_read a 4 (snd (flash_write a (le_bytes w) s)) = le_bytes w"
    using assms by (simp add: flash_read_def flash_write_def flash_op_done_def upt_rec le_bytes_def)
  then show ?thesis by (simp add: word_of_le_bytes)
qed

lemma move_to_next_fields:
  assumes "move_to_next cfg sz s = Some s'"
  shows "cur_using_data_addr s' = cur_using_data_addr s + move_offset_addr cfg sz"
    and "cache_end_addr s' = cache_end_addr s + move_offset_addr cfg sz"
    and "cache_detail s' = cache_detail s" and "flash_mem s' = flash_mem s"
    and "flash_faults s' = flash_faults s" and "flash_erased s' = flash_erased s"
    and "cache_data_crc s' = cache_data_crc s"
  using assms
  by (auto simp: move_to_next_def set_cur_using_data_addr_def set_env_detail_end_addr_def
      get_env_detail_end_addr_def get_cur_using_data_addr_def FLASH_ASSERT_def Let_def
      split: Option.bind_splits if_splits)

lemma move_to_next_Some:
  assumes "flash_erase_min_size cfg \<noteq> 0" "cur_using_data_addr s \<noteq> 0"
  shows "\<exists>s'. move_to_next cfg sz s = Some s'"
  using assms
  by (simp add: move_to_next_def get_cur_using_data_addr_def FLASH_ASSERT_def Let_def)

lemma save_erase_fields:
  assumes "save_erase cfg sz s = Some (r, s1)"
  shows "cur_using_data_addr s1 = cur_using_data_addr s"
    and "cache_end_addr s1 = cache_end_addr s"
    and "cache_detail s1 = cache_detail s"
    and "cur_using_data_addr s \<noteq> 0"
  using assms
  by (auto simp: save_erase_def cache_crc_step_def flash_erase_def flash_op_done_def
      get_cur_using_data_addr_def FLASH_ASSERT_def Let_def
      split: Option.bind_splits if_splits)

lemma save_write_fields:
  assumes "save_write cfg sz s = Some (r, s1)"
  shows "cur_using_data_addr s1 = cur_using_data_addr s"
    and "cache_end_addr s1 = cache_end_addr s"
    and "cache_detail s1 = cache_detail s"
    and "cur_using_data_addr s \<noteq> 0"
  using assms
  by (auto simp: save_write_def flash_write_def flash_op_done_def
      get_cur_using_data_addr_def FLASH_ASSERT_def Let_def
      split: Option.bind_splits if_splits)

lemma erase_fault_step:
  assumes fits: "slot_fits cfg sz s = Some True"
    and e: "save_erase cfg sz s = Some (FLASH_ERASE_ERR, s1)"
    and m: "flash_erase_min_size cfg \<noteq> 0"
  shows "\<exists>s2. move_to_next cfg sz s1 = Some s2
      \<and> cur_using_data_addr s2 = cur_using_data_addr s + move_offset_addr cfg sz
      \<and> get_env_detail_end_addr s2 = get_env_detail_end_addr s + move_offset_addr cfg sz
      \<and> flash_save_loop cfg sz result s = flash_save_loop cfg sz FLASH_ERASE_ERR s2"
proof -
  from save_erase_fields [OF e] have c: "cur_using_data_addr s1 \<noteq> 0" by simp
  from move_to_next_Some [OF m c] obtain s2 where s2: "move_to_next cfg sz s1 = Some s2" by blast
  have "flash_save_loop cfg sz result s = flash_save_loop cfg sz FLASH_ERASE_ERR s2"
    by (subst flash_save_loop.simps) (simp add: fits e s2)
  with s2 move_to_next_fields [OF s2] save_erase_fields [OF e] show ?thesis
    by (simp add: get_env_detail_end_addr_def)
qed

lemma write_fault_step:
  assumes fits: "slot_fits cfg sz s = Some True"
    and e: "save_erase cfg sz s = Some (FLASH_NO_ERR, s1)"
    and w: "save_write cfg sz s1 = Some (FLASH_WRITE_ERR, s2)"
    and m: "flash_erase_min_size cfg \<noteq> 0"
  shows "\<exists>s3. move_to_next cfg sz s2 = Some s3
      \<and> cur_using_data_addr s3 = cur_using_data_addr s + move_offset_addr cfg sz
      \<and> get_env_detail_end_addr s3 = get_env_detail_end_addr s + move_offset_addr cfg sz
      \<and> flash_save_loop cfg sz result s = flash_save_loop cfg sz FLASH_WRITE_ERR s3"
proof -
  from save_write_fields [OF w] save_erase_fields [OF e]
  have c: "cur_using_data_addr s2 \<noteq> 0" by simp
  from move_to_next_Some [OF m c] obtain s3 where s3: "move_to_next cfg sz s2 = Some s3" by blast
  have "flash_save_loop cfg sz result s = flash_save_loop cfg sz FLASH_WRITE_ERR s3"
    by (subst flash_save_loop.simps) (simp add: fits e w s3)
  with s3 move_to_next_fields [OF s3] save_erase_fields [OF e] save_write_fields [OF w] show ?thesis
    by (simp add: get_env_detail_end_addr_def)
qed

lemma save_cur_using_data_addr_ok:
  assumes "flash_op_ok s" "flash_op_ok (flash_op_done s)" "env_start_addr cfg \<noteq> 0"
  shows "\<exists>sv. save_cur_using_data_addr cfg a s = Some (FLASH_NO_ERR, sv)
     \<and> word_of_bytes (flash_read (env_start_addr cfg) 4 sv) = a
     \<and> cur_using_data_addr sv = cur_using_data_addr s"
proof -
  let ?e = "flash_erase (env_start_addr cfg) 4 s"
  have 1: "fst ?e = FLASH_NO_ERR" using assms by (simp add: flash_erase_def Let_def)
  have 2: "flash_op_ok (snd ?e)" using assms
    by (simp add: flash_erase_def Let_def flash_op_ok_def flash_op_done_def)
  have 3: "fst (flash_write (env_start_addr cfg) (le_bytes a) (snd ?e)) = FLASH_NO_ERR"
    using 2 by (simp add: flash_write_def)
  have 4: "cur_using_data_addr (snd (flash_write (env_start_addr cfg) (le_bytes a) (snd ?e))) = cur_using_data_addr s"
    using assms 2 by (simp add: flash_write_def flash_erase_def Let_def flash_op_done_def)
  have "save_cur_using_data_addr cfg a s = Some (flash_write (env_start_addr cfg) (le_bytes a) (snd ?e))"
    using assms 1 by (simp add: save_cur_using_data_addr_def get_env_start_addr_def FLASH_ASSERT_def Let_def)
  with 3 4 flash_read_written_word [OF 2] show ?thesis
    by (metis prod.collapse)
qed

lemma save_pointer:
  assumes sv: "flash_save_env cfg s = Some (FLASH_NO_ERR, s')"
    and ne: "cur_using_data_addr s' \<noteq> cur_using_data_addr s"
    and sz: "get_env_detail_size cfg s = Some sz"
    and lp: "flash_save_loop cfg sz FLASH_NO_ERR s = Some (r1, s1)"
    and ok: "flash_op_ok s1" "flash_op_ok (flash_op_done s1)"
  shows "word_of_bytes (flash_read (env_start_addr cfg) 4 s') = cur_using_data_addr s'"
proof -
  from sv sz lp obtain fits where fits: "slot_fits cfg sz s1 = Some fits"
    by (auto simp: flash_save_env_def split: Option.bind_splits)
  then have st: "env_start_addr cfg \<noteq> 0" and c1: "cur_using_data_addr s1 \<noteq> 0"
    by (auto simp: slot_fits_def get_env_start_addr_def get_cur_using_data_addr_def FLASH_ASSERT_def split: Option.bind_splits if_splits)
  from save_cur_using_data_addr_ok [OF ok st, of "cur_using_data_addr s1"]
  obtain sv1 where sv1: "save_cur_using_data_addr cfg (cur_using_data_addr s1) s1 = Some (FLASH_NO_ERR, sv1)"
      "word_of_bytes (flash_read (env_start_addr cfg) 4 sv1) = cur_using_data_addr s1"
      "cur_using_data_addr sv1 = cur_using_data_addr s1" by blast
  from save_cur_using_data_addr_ok [OF ok st, of "0xFFFFFFFF"]
  obtain sv2 where sv2: "save_cur_using_data_addr cfg 0xFFFFFFFF s1 = Some (FLASH_NO_ERR, sv2)" by blast
  from sv sz lp fits c1 sv1 sv2 ne show ?thesis
    by (auto simp: flash_save_env_def get_cur_using_data_addr_def FLASH_ASSERT_def split: Option.bind_splits if_splits)
qed

text \<open>
  Claim C3, as stated: after a failed erase or write the data section address and the
  cached detail end address advance by \<open>ceil(detailSize / erase_unit_size) * erase_unit_size\<close>,
  also for a detail size of 0 and for an exact multiple of the erase unit. The code adds
  \<open>(detailSize / erase_unit_size + 1) * erase_unit_size\<close>: with an empty detail part and an
  erase unit of 16 one erase fault moves the section from \<open>0x1010\<close> to \<open>0x1020\<close>, where the
  stated stride is 0; for a detail size of 16 the code moves by 32, the stated stride is 16.
\<close>

theorem flash_save_env_stride_counterexample:
  "get_env_detail_size (example_cfg False []) (example_state (stale 60 []) 0x1014 [False]) = Some 0
   \<and> map_option (cur_using_data_addr \<circ> snd)
        (flash_save_env (example_cfg False []) (example_state (stale 60 []) 0x1014 [False]))
      = Some 0x1020
   \<and> map_option (cache_end_addr \<circ> snd)
        (flash_save_env (example_cfg False []) (example_state (stale 60 []) 0x1014 [False]))
      = Some 0x1024
   \<and> spec_stride 0 (flash_erase_min_size (example_cfg False [])) = 0
   \<and> move_offset_addr (example_cfg False []) 0x10 = 0x20
   \<and> spec_stride 0x10 (flash_erase_min_size (example_cfg False [])) = 0x10"
  by (simp add: run_simps spec_stride_def)

text \<open>
  Claim C3, amended. In a pass of the loop of \<^verbatim>\<open>flash_save_env\<close> whose erase fails, and in
  a pass whose write fails, the data section address and the cached detail end address both
  advance by \<open>(detailSize div erase_min_size + 1) * erase_min_size\<close>, and the loop goes on from
  there. When \<^verbatim>\<open>flash_save_env\<close> then returns \<^verbatim>\<open>FLASH_NO_ERR\<close> with a data section address
  that differs from the one it started with, and the device performs the erase and the write
  of the system section, the word in the system section is the new data section address.
\<close>

theorem flash_save_env_relocation:
  "(slot_fits cfg sz s = Some True \<and> save_erase cfg sz s = Some (FLASH_ERASE_ERR, s1)
      \<and> flash_erase_min_size cfg \<noteq> 0
    \<longrightarrow> (\<exists>s2. move_to_next cfg sz s1 = Some s2
          \<and> cur_using_data_addr s2 =
              cur_using_data_addr s + (sz div flash_erase_min_size cfg + 1) * flash_erase_min_size cfg
          \<and> get_env_detail_end_addr s2 =
              get_env_detail_end_addr s + (sz div flash_erase_min_size cfg + 1) * flash_erase_min_size cfg
          \<and> flash_save_loop cfg sz result s = flash_save_loop cfg sz FLASH_ERASE_ERR s2))
   \<and> (slot_fits cfg sz t = Some True \<and> save_erase cfg sz t = Some (FLASH_NO_ERR, t1)
      \<and> save_write cfg sz t1 = Some (FLASH_WRITE_ERR, t2) \<and> flash_erase_min_size cfg \<noteq> 0
    \<longrightarrow> (\<exists>t3. move_to_next cfg sz t2 = Some t3
          \<and> cur_using_data_addr t3 =
              cur_using_data_addr t + (sz div flash_erase_min_size cfg + 1) * flash_erase_min_size cfg
          \<and> get_env_detail_end_addr t3 =
              get_env_detail_end_addr t + (sz div flash_erase_min_size cfg + 1) * flash_erase_min_size cfg
          \<and> flash_save_loop cfg sz result t = flash_save_loop cfg sz FLASH_WRITE_ERR t3))
   \<and> (flash_save_env cfg u = Some (FLASH_NO_ERR, u')
      \<and> cur_using_data_addr u' \<noteq> cur_using_data_addr u
      \<and> get_env_detail_size cfg u = Some sz
      \<and> flash_save_loop cfg sz FLASH_NO_ERR u = Some (r1, u1)
      \<and> flash_op_ok u1 \<and> flash_op_ok (flash_op_done u1)
    \<longrightarrow> word_of_bytes (flash_read (env_start_addr cfg) 4 u') = cur_using_data_addr u')"
  using erase_fault_step [of cfg sz s s1 result] write_fault_step [of cfg sz t t1 t2 result]
    save_pointer [of cfg u u' sz r1 u1]
  unfolding move_offset_addr_def by blast

text \<open>The amended claim on the small store: an erase fault and a write fault with a detail
  part of 4 bytes, and the whole save after one erase fault.\<close>

theorem flash_save_env_relocation_witness:
  "map_option cur_using_data_addr
     (move_to_next (example_cfg False []) 4
        (snd (the (save_erase (example_cfg False []) 4
           (example_state (stale 60 (''a=1'' @ [NUL])) 0x1018 [False])))))
     = Some 0x1020
   \<and> map_option cur_using_data_addr
     (move_to_next (example_cfg False []) 4
        (snd (the (save_write (example_cfg False []) 4
          (snd (the (save_erase (example_cfg False []) 4
             (example_state (stale 60 (''a=1'' @ [NUL])) 0x1018 [True, False]))))))))
     = Some 0x1020
   \<and> map_option fst (flash_save_env (example_cfg False [])
        (example_state (stale 60 (''a=1'' @ [NUL])) 0x1018 [False])) = Some FLASH_NO_ERR
   \<and> word_of_bytes (flash_read 0x1000 4 (snd (the (flash_save_env (example_cfg False [])
        (example_state (stale 60 (''a=1'' @ [NUL])) 0x1018 [False]))))) = 0x1020"
proof -
  let ?cfg = "example_cfg False []"
  let ?s = "example_state (stale 60 (''a=1'' @ [NUL])) 0x1018 [False]"
  let ?t = "example_state (stale 60 (''a=1'' @ [NUL])) 0x1018 [True, False]"
  have m: "flash_erase_min_size ?cfg \<noteq> 0" by (simp add: example_defs)
  \<comment> \<open>an erase fault\<close>
  have fs: "slot_fits ?cfg 4 ?s = Some True" by (simp add: run_simps)
  have "\<exists>s1. save_erase ?cfg 4 ?s = Some (FLASH_ERASE_ERR, s1)" by (simp add: run_simps)
  then obtain s1 where e: "save_erase ?cfg 4 ?s = Some (FLASH_ERASE_ERR, s1)" by blast
  from flash_save_env_relocation [THEN conjunct1, rule_format, of ?cfg 4 ?s s1] fs e m
  obtain s2 where "move_to_next ?cfg 4 s1 = Some s2"
    "cur_using_data_addr s2 = cur_using_data_addr ?s + (4 div flash_erase_min_size ?cfg + 1) * flash_erase_min_size ?cfg"
    by blast
  with e have 1: "map_option cur_using_data_addr (move_to_next ?cfg 4 (snd (the (save_erase ?cfg 4 ?s)))) = Some 0x1020"
    by (simp add: example_defs)
  \<comment> \<open>a write fault\<close>
  have ft: "slot_fits ?cfg 4 ?t = Some True" by (simp add: run_simps)
  have "\<exists>t1 t2. save_erase ?cfg 4 ?t = Some (FLASH_NO_ERR, t1) \<and> save_write ?cfg 4 t1 = Some (FLASH_WRITE_ERR, t2)"
    by (simp add: run_simps)
  then obtain t1 t2 where te: "save_erase ?cfg 4 ?t = Some (FLASH_NO_ERR, t1)"
    and tw: "save_write ?cfg 4 t1 = Some (FLASH_WRITE_ERR, t2)" by blast
  from flash_save_env_relocation [THEN conjunct2, THEN conjunct1, rule_format, of ?cfg 4 ?t t1 t2] ft te tw m
  obtain t3 where "move_to_next ?cfg 4 t2 = Some t3"
    "cur_using_data_addr t3 = cur_using_data_addr ?t + (4 div flash_erase_min_size ?cfg + 1) * flash_erase_min_size ?cfg"
    by blast
  with te tw have 2: "map_option cur_using_data_addr (move_to_next ?cfg 4
      (snd (the (save_write ?cfg 4 (snd (the (save_erase ?cfg 4 ?t))))))) = Some 0x1020"
    by (simp add: example_defs)
  \<comment> \<open>the pointer after the save\<close>
  have "\<exists>u'. flash_save_env ?cfg ?s = Some (FLASH_NO_ERR, u') \<and> cur_using_data_addr u' = 0x1020"
    by (simp add: run_simps)
  then obtain u' where sv: "flash_save_env ?cfg ?s = Some (FLASH_NO_ERR, u')"
    and cu: "cur_using_data_addr u' = 0x1020" by blast
  have ne: "cur_using_data_addr u' \<noteq> cur_using_data_addr ?s" by (simp add: cu example_defs)
  have sz: "get_env_detail_size ?cfg ?s = Some 4" by (simp add: run_simps)
  have "\<exists>r1 u1. flash_save_loop ?cfg 4 FLASH_NO_ERR ?s = Some (r1, u1)
      \<and> flash_op_ok u1 \<and> flash_op_ok (flash_op_done u1)"
    by (simp add: run_simps)
  then obtain r1 u1 where lp: "flash_save_loop ?cfg 4 FLASH_NO_ERR ?s = Some (r1, u1)"
    and ok: "flash_op_ok u1" "flash_op_ok (flash_op_done u1)" by blast
  from flash_save_env_relocation [THEN conjunct2, THEN conjunct2, rule_format, of ?cfg ?s u' 4 r1 u1]
    sv ne sz lp ok
  have "word_of_bytes (flash_read (env_start_addr ?cfg) 4 u') = cur_using_data_addr u'" by blast
  with sv cu have 3: "map_option fst (flash_save_env ?cfg ?s) = Some FLASH_NO_ERR"
    and 4: "word_of_bytes (flash_read 0x1000 4 (snd (the (flash_save_env ?cfg ?s)))) = 0x1020"
    by (simp_all add: example_defs)
  from 1 2 3 4 show ?thesis by blast
qed

subsection \<open>Saving: no section left\<close>








subsection \<open>Saving: the erase calls\<close>

lemma save_erase_log:
  assumes "save_erase cfg sz s = Some er"
  shows "flash_erased (snd er) =
         flash_erased s @ [(cur_using_data_addr s, ENV_PARAM_PART_BYTE_SIZE cfg + sz)]"
    and "cur_using_data_addr (snd er) = cur_using_data_addr s"
  using assms
  by (auto simp: save_erase_def cache_crc_step_def flash_erase_def flash_op_done_def
      get_cur_using_data_addr_def FLASH_ASSERT_def Let_def
      split: Option.bind_splits if_splits)

lemma save_write_log:
  assumes "save_write cfg sz s = Some wr"
  shows "flash_erased (snd wr) = flash_erased s"
    and "cur_using_data_addr (snd wr) = cur_using_data_addr s"
    and "fst wr = FLASH_NO_ERR \<or> fst wr = FLASH_WRITE_ERR"
  using assms
  by (auto simp: save_write_def flash_write_def flash_op_done_def
      split: Option.bind_splits if_splits)

lemma slot_erases_Suc:
  "slot_erases cfg sz cur0 (Suc n) =
     (cur0, ENV_PARAM_PART_BYTE_SIZE cfg + sz)
     # slot_erases cfg sz (cur0 + move_offset_addr cfg sz) n"
proof -
  have "[0..<Suc n] = 0 # map Suc [0..<n]"
    by (simp add: upt_conv_Cons map_Suc_upt del: upt_Suc)
  then show ?thesis
    by (simp add: slot_erases_def comp_def algebra_simps del: upt_Suc)
qed

lemma flash_save_loop_erased:
  assumes "flash_save_loop cfg sz result s = Some (r', s')"
  shows "\<exists>n. flash_erased s' = flash_erased s @ slot_erases cfg sz (cur_using_data_addr s) n"
  using assms
proof (induction cfg sz result s rule: flash_save_loop.induct)
  case (1 cfg sz result s)
  from "1.prems" obtain fits where fits: "slot_fits cfg sz s = Some fits"
    by (subst (asm) flash_save_loop.simps) (auto split: option.splits)
  show ?case
  proof (cases fits)
    case False
    with "1.prems" fits have "s' = s"
      by (subst (asm) flash_save_loop.simps) simp
    then have "flash_erased s' = flash_erased s @ slot_erases cfg sz (cur_using_data_addr s) 0"
      by (simp add: slot_erases_def)
    then show ?thesis ..
  next
    case True
    with "1.prems" fits obtain er where er: "save_erase cfg sz s = Some er"
      by (subst (asm) flash_save_loop.simps) (auto split: option.splits)
    note el = save_erase_log [OF er]
    show ?thesis
    proof (cases "fst er = FLASH_ERASE_ERR")
      case e: True
      with "1.prems" fits True er obtain s2 where s2: "move_to_next cfg sz (snd er) = Some s2"
        and lp: "flash_save_loop cfg sz (fst er) s2 = Some (r', s')"
        by (subst (asm) flash_save_loop.simps) (auto split: option.splits)
      from "1.IH"(1) [OF fits _ er e s2 lp] True
      obtain n where "flash_erased s' =
          flash_erased s2 @ slot_erases cfg sz (cur_using_data_addr s2) n" by auto
      with move_to_next_fields [OF s2] el
      have "flash_erased s' = flash_erased s @ slot_erases cfg sz (cur_using_data_addr s) (Suc n)"
        by (simp add: slot_erases_Suc)
      then show ?thesis ..
    next
      case e: False
      with "1.prems" fits True er obtain wr where wr: "save_write cfg sz (snd er) = Some wr"
        by (subst (asm) flash_save_loop.simps) (auto split: option.splits)
      note wl = save_write_log [OF wr]
      show ?thesis
      proof (cases "fst wr = FLASH_WRITE_ERR")
        case w: True
        with "1.prems" fits True er e wr obtain s2 where s2: "move_to_next cfg sz (snd wr) = Some s2"
          and lp: "flash_save_loop cfg sz (fst wr) s2 = Some (r', s')"
          by (subst (asm) flash_save_loop.simps) (auto split: option.splits)
        from "1.IH"(2) [OF fits _ er e wr w s2 lp] True
        obtain n where "flash_erased s' =
            flash_erased s2 @ slot_erases cfg sz (cur_using_data_addr s2) n" by auto
        with move_to_next_fields [OF s2] el wl
        have "flash_erased s' =
            flash_erased s @ slot_erases cfg sz (cur_using_data_addr s) (Suc n)"
          by (simp add: slot_erases_Suc)
        then show ?thesis ..
      next
        case w: False
        with wl(3) have "fst wr = FLASH_NO_ERR" by simp
        with "1.prems" fits True er e wr w have "s' = snd wr"
          by (subst (asm) flash_save_loop.simps) auto
        with el wl
        have "flash_erased s' =
            flash_erased s @ slot_erases cfg sz (cur_using_data_addr s) (Suc 0)"
          by (simp add: slot_erases_def)
        then show ?thesis ..
      qed
    qed
  qed
qed

lemma save_cur_using_data_addr_log:
  assumes "save_cur_using_data_addr cfg a s = Some sv"
  shows "flash_erased (snd sv) = flash_erased s @ [(env_start_addr cfg, 4)]"
  using assms
  by (auto simp: save_cur_using_data_addr_def flash_erase_def flash_write_def flash_op_done_def
      get_env_start_addr_def FLASH_ASSERT_def Let_def
      split: Option.bind_splits if_splits)

text \<open>
  Claim C8, as stated: every erase call passes an address and a length that are multiples
  of the erase unit. On the small store (erase unit 16) a save with one erase fault erases
  8 bytes at \<open>0x1010\<close>, 8 bytes at \<open>0x1020\<close> and 4 bytes at \<open>0x1000\<close>.
\<close>

theorem flash_erase_sizes_counterexample:
  "map_option (flash_erased \<circ> snd) (flash_save_env (example_cfg False [])
      (example_state (stale 60 (''a=1'' @ [NUL])) 0x1018 [False]))
     = Some [(0x1010, 8), (0x1020, 8), (0x1000, 4)]
   \<and> flash_erase_min_size (example_cfg False []) = 0x10
   \<and> (8 :: u32) mod 0x10 \<noteq> 0 \<and> (4 :: u32) mod 0x10 \<noteq> 0"
  by (simp add: run_simps)

text \<open>
  Claim C8, amended. The erase calls of \<^verbatim>\<open>flash_save_env\<close> are, in order: one call per pass of
  the loop, pass \<open>i\<close> at the data section address of the start plus \<open>i\<close> move offsets and of
  exactly the parameter part size plus the detail size in bytes; then at most one call for the
  system section, at the start address of the store and of exactly 4 bytes.
\<close>

theorem flash_save_env_erase_calls:
  assumes sv: "flash_save_env cfg s = Some (r, s')"
    and sz: "get_env_detail_size cfg s = Some sz"
  shows "\<exists>n sys. flash_erased s' =
             flash_erased s @ slot_erases cfg sz (cur_using_data_addr s) n @ sys
           \<and> (sys = [] \<or> sys = [(env_start_addr cfg, 4)])"
proof -
  from sv sz obtain lp where lp: "flash_save_loop cfg sz FLASH_NO_ERR s = Some lp"
    by (auto simp: flash_save_env_def split: Option.bind_splits)
  from flash_save_loop_erased [of cfg sz FLASH_NO_ERR s "fst lp" "snd lp"] lp
  obtain n where n: "flash_erased (snd lp) =
      flash_erased s @ slot_erases cfg sz (cur_using_data_addr s) n" by auto
  from sv sz lp have "s' = snd lp
      \<or> (\<exists>a sv1. save_cur_using_data_addr cfg a (snd lp) = Some sv1 \<and> s' = snd sv1)"
    by (auto simp: flash_save_env_def split: Option.bind_splits if_splits)
  then show ?thesis
  proof
    assume "s' = snd lp"
    with n have "flash_erased s' =
        flash_erased s @ slot_erases cfg sz (cur_using_data_addr s) n @ []" by simp
    then show ?thesis by blast
  next
    assume "\<exists>a sv1. save_cur_using_data_addr cfg a (snd lp) = Some sv1 \<and> s' = snd sv1"
    then obtain a sv1 where "save_cur_using_data_addr cfg a (snd lp) = Some sv1" "s' = snd sv1"
      by blast
    with save_cur_using_data_addr_log [of cfg a "snd lp" sv1] n
    have "flash_erased s' = flash_erased s @ slot_erases cfg sz (cur_using_data_addr s) n
        @ [(env_start_addr cfg, 4)]" by simp
    then show ?thesis by blast
  qed
qed

text \<open>A CRC build: a write fault, then an erase that succeeds; the section has moved,
  so the system section is erased as well.\<close>

theorem flash_save_env_erase_calls_witness:
  "map_option (flash_erased \<circ> snd) (flash_save_env (example_cfg True [])
      (example_state (stale 56 (''a=1'' @ [NUL])) 0x101C [True, False]))
     = Some (slot_erases (example_cfg True []) 4 0x1010 2 @ [(0x1000, 4)])
   \<and> slot_erases (example_cfg True []) 4 0x1010 2 = [(0x1010, 12), (0x1020, 12)]"
proof -
  let ?cfg = "example_cfg True []"
  let ?s = "example_state (stale 56 (''a=1'' @ [NUL])) 0x101C [True, False]"
  have "flash_save_env ?cfg ?s \<noteq> None" by (simp add: run_simps)
  then obtain r s' where sv: "flash_save_env ?cfg ?s = Some (r, s')" by auto
  have sz: "get_env_detail_size ?cfg ?s = Some 4" by (simp add: run_simps)
  from flash_save_env_erase_calls [OF sv sz]
  obtain n sys where log: "flash_erased s' =
      flash_erased ?s @ slot_erases ?cfg 4 (cur_using_data_addr ?s) n @ sys"
    by blast
  have 2: "slot_erases ?cfg 4 0x1010 2 = [(0x1010, 12), (0x1020, 12)]"
    by (simp add: slot_erases_def run_simps upt_rec)
  have "map_option (flash_erased \<circ> snd) (flash_save_env ?cfg ?s)
      = Some [(0x1010, 12), (0x1020, 12), (0x1000, 4)]"
    by (simp add: run_simps)
  with 2 sv log show ?thesis by simp
qed

subsection \<open>The size of the detail part\<close>









subsection \<open>Loading\<close>

lemma store_at_flash_read_None:
  "length buf < n \<Longrightarrow> store_at buf p (flash_read a n s) = None"
  by (simp add: store_at_def flash_read_def)

text \<open>
  Claim C4. The load is to install the defaults whenever the word in the system section lies
  outside the store, below its start address as well as at its end address.
  \<^verbatim>\<open>flash_load_env\<close> tests \<^verbatim>\<open>using_data_addr > env_start_addr + env_total_size\<close> only. On the
  small store (\<open>0x1000\<close> to \<open>0x1040\<close>, CRC build, default set \<open>a=1\<close>):

  \<^item> with the word \<open>0x0FF0\<close> in the system section and an empty data section with a fitting
    CRC at \<open>0x0FF0\<close>, the load takes \<open>0x0FF0\<close> as the data section in use and installs no
    default: the cache does not know \<open>a\<close>;
  \<^item> with the word \<open>0x1040\<close> in the system section and the detail end address \<open>0x1040\<close>
    stored there, the load passes both tests, the detail size wraps around to
    \<open>0xFFFFFFF8\<close> and the read into the cache runs past its end.
\<close>

theorem flash_load_env_accepts_outside_pointer:
  "flash_load_env (example_cfg True [(''a'', ''1'')])
     (example_state (stale 56 []) 0 []
        \<lparr>flash_mem := flash_words [(0x1000, 0x0FF0), (0x0FF0, 0x0FF8), (0x0FF4, 0x107)]\<rparr>)
   = Some (example_state (stale 56 []) 0x0FF8 []
        \<lparr>cache_data_crc := 0x107, cur_using_data_addr := 0x0FF0,
         flash_mem := flash_words [(0x1000, 0x0FF0), (0x0FF0, 0x0FF8), (0x0FF4, 0x107)]\<rparr>)
   \<and> flash_get_env (example_cfg True [(''a'', ''1'')]) ''a''
       (example_state (stale 56 []) 0x0FF8 []
          \<lparr>cache_data_crc := 0x107, cur_using_data_addr := 0x0FF0,
           flash_mem := flash_words [(0x1000, 0x0FF0), (0x0FF0, 0x0FF8), (0x0FF4, 0x107)]\<rparr>)
     = Some None
   \<and> flash_load_env (example_cfg True [(''a'', ''1'')])
       (example_state (stale 56 []) 0 []
          \<lparr>flash_mem := flash_words [(0x1000, 0x1040), (0x1040, 0x1040)]\<rparr>)
     = None"
  by (simp add: store_at_flash_read_None run_simps)

subsection \<open>Appending a record\<close>

lemma unat_align4_u16:
  assumes "n \<le> 65532"
  shows "unat (align4 (of_nat n :: u16)) = ((n + 3) div 4) * 4"
proof -
  have n: "unat (of_nat n :: u16) = n" using assms by (simp add: unat_of_nat)
  have m: "unat ((of_nat n :: u16) mod 4) = n mod 4" by (simp add: unat_mod n)
  have d: "unat ((of_nat n :: u16) div 4) = n div 4" by (simp add: unat_div n)
  show ?thesis
  proof (cases "n mod 4 = 0")
    case True
    then have "(of_nat n :: u16) mod 4 = 0" using m by (metis unat_eq_zero)
    then have "align4 (of_nat n :: u16) = of_nat n" by (simp add: align4_def)
    with n True show ?thesis by presburger
  next
    case False
    then have nz: "(of_nat n :: u16) mod 4 \<noteq> 0" using m by (metis unat_0)
    have b: "(n div 4 + 1) * 4 < 65536" using assms False by presburger
    then have b1: "n div 4 + 1 < 65536" by simp
    have "unat ((of_nat n :: u16) div 4 + 1) = unat ((of_nat n :: u16) div 4) + unat (1 :: u16)"
      by (rule unat_add_lem [THEN iffD1]) (use b1 in \<open>simp add: d\<close>)
    then have 1: "unat ((of_nat n :: u16) div 4 + 1) = n div 4 + 1" by (simp add: d)
    have "unat (((of_nat n :: u16) div 4 + 1) * 4) =
        unat ((of_nat n :: u16) div 4 + 1) * unat (4 :: u16)"
      by (rule unat_mult_lem [THEN iffD1]) (use b in \<open>simp add: 1\<close>)
    then have "unat (((of_nat n :: u16) div 4 + 1) * 4) = (n div 4 + 1) * 4" by (simp add: 1)
    moreover have "(n div 4 + 1) * 4 = ((n + 3) div 4) * 4" using False by presburger
    ultimately show ?thesis using nz by (simp add: align4_def)
  qed
qed

lemma format_record:
  assumes "length key + length val + 2 \<le> L"
  shows "(store_at (replicate L NUL) 0 key \<bind> (\<lambda>e. store_at e (length key) ''='' \<bind>
           (\<lambda>e. store_at e (length key + 1) val \<bind> k)))
         = k (key @ ''='' @ val @ replicate (L - (length key + length val + 1)) NUL)"
  using assms by (simp add: store_at_def)


lemma write_env_unfold:
  assumes n: "length key + length val + 2 \<le> 65532"
    and sz: "get_env_detail_size cfg s = Some sz"
    and tot: "env_total_size cfg \<noteq> 0"
  shows "write_env cfg key val s =
     (if env_total_size cfg \<le> of_nat (spec_padded_length key val) + sz
      then Some (FLASH_ENV_FULL, s)
      else (case store_at (cache_detail s) (unat sz)
                  (key @ ''='' @ val
                   @ replicate (spec_padded_length key val - (length key + length val + 1)) NUL) of
              None \<Rightarrow> None
            | Some detail \<Rightarrow>
                Some (FLASH_NO_ERR,
                      s\<lparr>cache_detail := detail,
                        cache_end_addr := cache_end_addr s + of_nat (spec_padded_length key val)\<rparr>)))"
proof -
  let ?L = "spec_padded_length key val"
  let ?A = "align4 (of_nat (length key + length val + 2) :: u16)"
  have A: "unat ?A = ?L"
    using unat_align4_u16 [OF n] by (simp add: spec_padded_length_def)
  have "(ucast ?A :: u32) = of_nat (unat ?A)"
    by (rule of_nat_unat [symmetric])
  then have U: "(ucast ?A :: u32) = of_nat ?L"
    by (simp only: A)
  have L: "length key + length val + 2 \<le> ?L"
    unfolding spec_padded_length_def by presburger
  note F = format_record [OF L]
  show ?thesis
    unfolding write_env_def Let_def A U Option.bind.bind_lunit F
    using sz tot
    by (simp add: flash_get_env_total_size_def FLASH_ASSERT_def set_env_detail_end_addr_def
        get_env_detail_end_addr_def split: option.splits)
qed

text \<open>
  Claim C5. \<^verbatim>\<open>write_env\<close> is to answer \<^verbatim>\<open>FLASH_ENV_FULL\<close> and leave the cache alone
  exactly when the padded length plus the detail size reaches the total size, and to append
  the padded record otherwise. Its comment reads \<open>check capacity of environment variables\<close>.
  On the small store (64 bytes, CRC build) the check lets two appends through that run past a
  buffer:

  \<^item> the padded length is held in a \<^verbatim>\<open>uint16_t\<close>: for a key of 65534 characters and an empty
    value the length \<open>65536\<close> is stored as 0, the check passes although \<open>65536 + 0\<close> is
    not below 64, and the copy loop writes past the buffer of 0 bytes that was allocated;
  \<^item> the check compares with the total size, of which the parameter part takes 8 bytes:
    with 52 bytes of detail in the cache of 64 bytes the record \<open>abc=123\<close> of 8 bytes passes
    the check (\<open>8 + 52 < 64\<close>), and the copy into the cache ends 4 bytes behind it.
\<close>

theorem write_env_overruns_buffers:
  "write_env (example_cfg True []) (replicate 65534 CHR ''a'') []
     (example_state (stale 56 []) 0x1018 []) = None
   \<and> get_env_detail_size (example_cfg True []) (example_state (stale 56 []) 0x1018 []) = Some 0
   \<and> spec_padded_length (replicate 65534 CHR ''a'') [] = 65536
   \<and> unat (env_total_size (example_cfg True [])) \<le> 65536 + 0
   \<and> write_env (example_cfg True []) ''abc'' ''123''
       (example_state (replicate 56 CHR ''x'') 0x104C []) = None
   \<and> get_env_detail_size (example_cfg True []) (example_state (replicate 56 CHR ''x'') 0x104C [])
       = Some 52
   \<and> spec_padded_length ''abc'' ''123'' = 8
   \<and> 8 + 52 < unat (env_total_size (example_cfg True []))"
  by (simp add: run_simps spec_padded_length_def)

text \<open>
  Inside the range of the \<^verbatim>\<open>uint16_t\<close> and of the cache buffer the function does what is
  described. For a key and a value with \<open>len(key) + len(value) + 2 \<le> 65532\<close>:
  \<^verbatim>\<open>write_env\<close> answers \<^verbatim>\<open>FLASH_ENV_FULL\<close> exactly when the padded length plus the detail
  size, added as \<^verbatim>\<open>size_t\<close>, is at least the total size, and then leaves the cache as it
  was; otherwise, when the padded record lies inside the cache buffer, it writes key, equal
  sign, value and NUL, filled with NUL to the padded length, at the detail end, and raises the
  detail end address by the padded length.
\<close>

lemma write_env_capacity:
  assumes "length key + length val + 2 \<le> 65532"
    and "get_env_detail_size cfg s = Some sz"
    and "env_total_size cfg \<noteq> 0"
  shows "(map_option fst (write_env cfg key val s) = Some FLASH_ENV_FULL)
           = (env_total_size cfg \<le> of_nat (spec_padded_length key val) + sz)
     \<and> (env_total_size cfg \<le> of_nat (spec_padded_length key val) + sz
          \<longrightarrow> write_env cfg key val s = Some (FLASH_ENV_FULL, s))
     \<and> (\<not> env_total_size cfg \<le> of_nat (spec_padded_length key val) + sz
          \<and> unat sz + spec_padded_length key val \<le> length (cache_detail s)
          \<longrightarrow> write_env cfg key val s =
              Some (FLASH_NO_ERR,
                    s\<lparr>cache_detail :=
                        take (unat sz) (cache_detail s)
                        @ (key @ ''='' @ val
                           @ replicate (spec_padded_length key val
                                        - (length key + length val + 1)) NUL)
                        @ drop (unat sz + spec_padded_length key val) (cache_detail s),
                      cache_end_addr :=
                        cache_end_addr s + of_nat (spec_padded_length key val)\<rparr>))"
proof -
  let ?L = "spec_padded_length key val"
  let ?r = "key @ ''='' @ val @ replicate (?L - (length key + length val + 1)) NUL"
  have L: "length key + length val + 2 \<le> ?L"
    unfolding spec_padded_length_def by presburger
  then have len: "length ?r = ?L" by simp
  note u = write_env_unfold [OF assms]
  have 1: "(map_option fst (write_env cfg key val s) = Some FLASH_ENV_FULL)
           = (env_total_size cfg \<le> of_nat ?L + sz)"
    unfolding u by (simp split: option.splits)
  have 2: "env_total_size cfg \<le> of_nat ?L + sz
          \<longrightarrow> write_env cfg key val s = Some (FLASH_ENV_FULL, s)"
    unfolding u by simp
  have 3: "\<not> env_total_size cfg \<le> of_nat ?L + sz \<and> unat sz + ?L \<le> length (cache_detail s)
          \<longrightarrow> write_env cfg key val s =
              Some (FLASH_NO_ERR,
                    s\<lparr>cache_detail := take (unat sz) (cache_detail s) @ ?r
                        @ drop (unat sz + ?L) (cache_detail s),
                      cache_end_addr := cache_end_addr s + of_nat ?L\<rparr>)"
    unfolding u using len by (simp add: store_at_def)
  from 1 2 3 show ?thesis by blast
qed

text \<open>An append to the empty cache, and an append to a cache with 60 bytes of detail.\<close>

lemma write_env_capacity_example:
  "write_env (example_cfg False []) ''k'' ''v'' (example_state (stale 60 []) 0x1014 [])
     = Some (FLASH_NO_ERR, example_state (stale 60 (''k=v'' @ [NUL])) 0x1018 [])
   \<and> write_env (example_cfg False []) ''k'' ''v''
       (example_state (replicate 60 CHR ''x'') 0x1050 [])
     = Some (FLASH_ENV_FULL, example_state (replicate 60 CHR ''x'') 0x1050 [])"
proof -
  let ?cfg = "example_cfg False []"
  let ?s = "example_state (stale 60 []) 0x1014 []"
  let ?t = "example_state (replicate 60 CHR ''x'') 0x1050 []"
  have n: "length ''k'' + length ''v'' + 2 \<le> (65532 :: nat)" by simp
  have tot: "env_total_size ?cfg \<noteq> 0" by (simp add: example_defs)
  have szs: "get_env_detail_size ?cfg ?s = Some 0" by (simp add: run_simps)
  have szt: "get_env_detail_size ?cfg ?t = Some 60" by (simp add: run_simps)
  have L: "spec_padded_length ''k'' ''v'' = 4" by (simp add: spec_padded_length_def)
  have "\<not> env_total_size ?cfg \<le> of_nat (spec_padded_length ''k'' ''v'') + 0
      \<and> unat (0 :: u32) + spec_padded_length ''k'' ''v'' \<le> length (cache_detail ?s)"
    by (simp add: L example_defs)
  with write_env_capacity [OF n szs tot, THEN conjunct2, THEN conjunct2]
  have 1: "write_env ?cfg ''k'' ''v'' ?s
     = Some (FLASH_NO_ERR, example_state (stale 60 (''k=v'' @ [NUL])) 0x1018 [])"
    by (simp add: L example_defs)
  have "env_total_size ?cfg \<le> of_nat (spec_padded_length ''k'' ''v'') + 60"
    by (simp add: L example_defs)
  with write_env_capacity [OF n szt tot, THEN conjunct2, THEN conjunct1]
  have 2: "write_env ?cfg ''k'' ''v'' ?t = Some (FLASH_ENV_FULL, ?t)" by blast
  from 1 2 show ?thesis by blast
qed

subsection \<open>Setting a value and reading it back\<close>

lemma cstr_at_Some_iff:
  "cstr_at d p = Some r \<longleftrightarrow> (\<exists>rest. drop p d = r @ NUL # rest \<and> NUL \<notin> set r)"
proof
  assume "cstr_at d p = Some r"
  then have m: "NUL \<in> set (drop p d)" and r: "r = takeWhile (\<lambda>c. c \<noteq> NUL) (drop p d)"
    by (auto simp: cstr_at_def split: if_splits)
  from m have "dropWhile (\<lambda>c. c \<noteq> NUL) (drop p d) \<noteq> []" by auto
  then obtain x rest where dw: "dropWhile (\<lambda>c. c \<noteq> NUL) (drop p d) = x # rest"
    by (cases "dropWhile (\<lambda>c. c \<noteq> NUL) (drop p d)") auto
  then have "x = NUL" using hd_dropWhile [of "\<lambda>c. c \<noteq> NUL" "drop p d"] by force
  with dw r have "drop p d = r @ NUL # rest"
    using takeWhile_dropWhile_id [of "\<lambda>c. c \<noteq> NUL" "drop p d"] by simp
  moreover have "NUL \<notin> set r" using r by (auto dest: set_takeWhileD)
  ultimately show "\<exists>rest. drop p d = r @ NUL # rest \<and> NUL \<notin> set r" by blast
next
  assume "\<exists>rest. drop p d = r @ NUL # rest \<and> NUL \<notin> set r"
  then obtain rest where d: "drop p d = r @ NUL # rest" and r: "NUL \<notin> set r" by blast
  from r have "takeWhile (\<lambda>c. c \<noteq> NUL) (r @ NUL # rest) = r"
    by (subst takeWhile_append2) auto
  with d show "cstr_at d p = Some r" by (simp add: cstr_at_def)
qed

lemma cstr_at_before_nul:
  assumes r: "cstr_at d p = Some r" and p: "p < n" and n: "n \<le> length d"
    and z: "d ! (n - 1) = NUL"
  shows "p + length r < n"
proof (rule ccontr)
  assume "\<not> p + length r < n"
  then have le: "n - 1 - p < length r" using p by arith
  from r obtain rest where d: "drop p d = r @ NUL # rest" and nz: "NUL \<notin> set r"
    unfolding cstr_at_Some_iff by blast
  have "d ! (n - 1) = drop p d ! (n - 1 - p)" using p n by simp
  also have "\<dots> = r ! (n - 1 - p)" using le by (simp add: d nth_append)
  finally have "d ! (n - 1) \<in> set r" using le by simp
  with z nz show False by simp
qed

lemma cstr_at_same_prefix:
  assumes r: "cstr_at d p = Some r" and b: "p + length r < n" and e: "take n d' = take n d"
  shows "cstr_at d' p = Some r"
proof -
  from r obtain rest where d: "drop p d = r @ NUL # rest" and nz: "NUL \<notin> set r"
    unfolding cstr_at_Some_iff by blast
  let ?k = "length r + 1"
  have "take ?k (drop p d') = drop p (take (p + ?k) d')" by (simp add: drop_take)
  also have "take (p + ?k) d' = take (p + ?k) (take n d')" using b by (simp add: min_def)
  also have "\<dots> = take (p + ?k) (take n d)" by (simp only: e)
  also have "\<dots> = take (p + ?k) d" using b by (simp add: min_def)
  also have "drop p (take (p + ?k) d) = take ?k (drop p d)" by (simp add: drop_take)
  also have "\<dots> = r @ [NUL]" by (simp add: d)
  finally have t: "take ?k (drop p d') = r @ [NUL]" .
  have "drop p d' = take ?k (drop p d') @ drop ?k (drop p d')"
    by (rule append_take_drop_id [symmetric])
  with t have "drop p d' = r @ NUL # drop ?k (drop p d')" by simp
  with nz show ?thesis unfolding cstr_at_Some_iff by blast
qed

lemma strstr_prefix:
  assumes "key \<noteq> []"
  shows "strstr (key @ rest) key = Some 0"
proof -
  from assms obtain h hs where "key @ rest = h # hs" by (cases key) auto
  moreover have "take (length key) (key @ rest) = key" by simp
  ultimately show ?thesis by (metis strstr.simps(2))
qed

lemma strstr_first_char:
  assumes "c \<notin> set xs"
  shows "strstr (xs @ c # ys) [c] = Some (length xs)"
  using assms by (induction xs) auto

lemma find_env_loop_reaches_end:
  assumes "find_env_loop d key n p = Some None"
    and "p \<le> n" and "n \<le> length d" and "n = 0 \<or> d ! (n - 1) = NUL"
    and "take n d' = take n d" and "n \<le> m"
  shows "find_env_loop d' key m p = find_env_loop d' key m n"
  using assms
proof (induction d key n p rule: find_env_loop.induct)
  case (1 buf key env_end env)
  show ?case
  proof (cases "env < env_end")
    case False
    with "1.prems" show ?thesis by simp
  next
    case True
    with "1.prems"(1) obtain r where r: "cstr_at buf env = Some r"
      and nm: "\<not> env_matches r key"
      and rec: "find_env_loop buf key env_end (env + length r + 1) = Some None"
      by (subst (asm) find_env_loop.simps) (auto split: option.splits if_splits)
    from True "1.prems" have z: "buf ! (env_end - 1) = NUL" by auto
    from cstr_at_before_nul [OF r True "1.prems"(3) z]
    have b: "env + length r < env_end" .
    from cstr_at_same_prefix [OF r b "1.prems"(5)] have r': "cstr_at d' env = Some r" .
    from b have le: "env + length r + 1 \<le> env_end" by simp
    from "1.IH" [OF True r nm rec le "1.prems"(3) "1.prems"(4) "1.prems"(5) "1.prems"(6)]
    have "find_env_loop d' key m (env + length r + 1) = find_env_loop d' key m env_end" .
    moreover have "find_env_loop d' key m env = find_env_loop d' key m (env + length r + 1)"
      using True "1.prems"(6) r' nm by (subst find_env_loop.simps) simp
    ultimately show ?thesis by simp
  qed
qed


lemma align4_u16_small:
  assumes "n \<le> unat (align4 (of_nat n :: u16)) + 1"
  shows "n \<le> 65532"
proof (rule ccontr)
  assume "\<not> n \<le> 65532"
  moreover have "unat (align4 (of_nat n :: u16)) < 65536"
    using unsigned_less [of "align4 (of_nat n :: u16)", where ?'a = nat] by simp
  ultimately have "n = 65533 \<or> n = 65534 \<or> n = 65535 \<or> n = 65536"
    using assms by arith
  then show False using assms by (elim disjE) (simp_all add: align4_def)
qed

lemma write_env_ok_length:
  assumes "write_env cfg key val s = Some (FLASH_NO_ERR, s')"
  shows "length key + length val + 2 \<le> 65532"
proof -
  let ?A = "align4 (of_nat (length key + length val + 2) :: u16)"
  from assms have "length key + 1 + length val \<le> unat ?A"
    by (auto simp: write_env_def Let_def store_at_def split: Option.bind_splits if_splits)
  then have "length key + length val + 2 \<le> unat ?A + 1" by simp
  then show ?thesis by (rule align4_u16_small)
qed

lemma create_env_then_get:
  assumes key: "key \<noteq> []" "CHR ''='' \<notin> set key" "NUL \<notin> set key"
    and val: "NUL \<notin> set val"
    and cr: "create_env cfg key val s = Some (FLASH_NO_ERR, s')"
    and wf: "detail_ends_with_nul cfg s"
    and len: "length (cache_detail s) < 2 ^ 32"
  shows "flash_get_env cfg key s' = Some (Some val)"
proof -
  let ?L = "spec_padded_length key val"
  let ?k = "?L - (length key + length val + 1)"
  let ?kv = "key @ ''='' @ val"
  let ?d = "cache_detail s"
  from cr key have nf: "find_env cfg key s = Some None"
    and wr: "write_env cfg key val s = Some (FLASH_NO_ERR, s')"
    by (auto simp: create_env_def split: Option.bind_splits if_splits)
  note n = write_env_ok_length [OF wr]
  from wr obtain sz where sz: "get_env_detail_size cfg s = Some sz"
    and tot: "env_total_size cfg \<noteq> 0"
    by (auto simp: write_env_def Let_def flash_get_env_total_size_def FLASH_ASSERT_def
        split: Option.bind_splits if_splits)
  from sz have cur: "cur_using_data_addr s \<noteq> 0"
    by (auto simp: get_env_detail_size_def get_env_detail_addr_def FLASH_ASSERT_def
        split: Option.bind_splits if_splits)
  have L: "length key + length val + 2 \<le> ?L"
    unfolding spec_padded_length_def by presburger
  then have k: "?k = Suc (?k - 1)" by simp
  have lrec: "length (?kv @ replicate ?k NUL) = ?L" using L by simp
  define d' where "d' = take (unat sz) ?d @ (?kv @ replicate ?k NUL) @ drop (unat sz + ?L) ?d"
  from wr have fit: "unat sz + ?L \<le> length ?d"
    and s': "s' = s\<lparr>cache_detail := d', cache_end_addr := cache_end_addr s + of_nat ?L\<rparr>"
    unfolding write_env_unfold [OF n sz tot] d'_def using lrec
    by (auto simp: store_at_def split: if_splits option.splits)
  let ?n = "unat sz"
  let ?m = "?n + ?L"
  have m32: "?m < 2 ^ 32" using fit len by simp
  have Lw: "unat (of_nat ?L :: u32) = ?L" using m32 by (simp add: unat_of_nat)
  have um: "unat (sz + of_nat ?L) = ?m"
    using m32 Lw unat_add_lem [of sz "of_nat ?L :: u32"] by simp
  have sz': "get_env_detail_size cfg s' = Some (sz + of_nat ?L)"
    using sz cur unfolding s'
    by (auto simp: get_env_detail_size_def get_env_detail_addr_def get_env_detail_end_addr_def
        FLASH_ASSERT_def split: Option.bind_splits if_splits)
  have nz: "sz + of_nat ?L \<noteq> 0"
  proof
    assume "sz + of_nat ?L = 0"
    then have "unat (sz + of_nat ?L) = 0" by simp
    with um L show False by simp
  qed
  have cd: "cache_detail s' = d'" and cur': "cur_using_data_addr s' \<noteq> 0"
    using cur by (simp_all add: s')
  have fe: "find_env cfg key s' = find_env_loop d' key ?m 0"
    using cur' key sz' nz um by (simp add: find_env_def FLASH_ASSERT_def cd)
  have tk: "take ?n d' = take ?n ?d" using fit by (simp add: d'_def)
  have "find_env_loop d' key ?m 0 = find_env_loop d' key ?m ?n"
  proof (cases "sz = 0")
    case True
    then show ?thesis by simp
  next
    case False
    with nf sz cur key have lp: "find_env_loop ?d key ?n 0 = Some None"
      by (simp add: find_env_def FLASH_ASSERT_def)
    from wf sz False have nl: "?n \<le> length ?d" and z: "?d ! (?n - 1) = NUL"
      by (auto simp: detail_ends_with_nul_def)
    from find_env_loop_reaches_end [OF lp _ nl _ tk, of ?m] z show ?thesis by simp
  qed
  moreover
  have dr: "drop ?n d' = ?kv @ NUL # (replicate (?k - 1) NUL @ drop ?m ?d)"
  proof -
    have "drop ?n d' = (?kv @ replicate ?k NUL) @ drop ?m ?d"
      using fit by (simp add: d'_def)
    also have "replicate ?k NUL = NUL # replicate (?k - 1) NUL"
      by (subst k) simp
    finally show ?thesis by simp
  qed
  have nn: "NUL \<notin> set ?kv" using key val by simp
  from dr nn have cs: "cstr_at d' ?n = Some ?kv"
    unfolding cstr_at_Some_iff by blast
  have em: "env_matches ?kv key"
    using strstr_prefix [OF key(1), of "''='' @ val"]
    by (simp add: env_matches_def nth_append)
  have "find_env_loop d' key ?m ?n = Some (Some ?n)"
    using L cs em by (subst find_env_loop.simps) simp
  ultimately have found: "find_env cfg key s' = Some (Some ?n)" using fe by simp
  have eq: "strstr (key @ CHR ''='' # val) ''='' = Some (length key)"
    using strstr_first_char [OF key(2), of val] by simp
  show ?thesis
    unfolding flash_get_env_def found cd by (simp add: cs eq)
qed


lemma memcpy_length:
  assumes "memcpy buf dst src n = Some buf'"
  shows "length buf' = length buf"
  using assms by (auto simp: memcpy_def split: if_splits)

lemma flash_del_env_length:
  assumes "flash_del_env cfg key s = Some del"
  shows "length (cache_detail (snd del)) = length (cache_detail s)"
  using assms
  by (auto simp: flash_del_env_def Let_def set_env_detail_end_addr_def
      dest: memcpy_length split: Option.bind_splits if_splits option.splits)

text \<open>
  Claim C6, as stated: after a \<^verbatim>\<open>flash_set_env\<close> that succeeds, \<^verbatim>\<open>flash_get_env\<close> returns the
  value, also for a value of length 0. \<^verbatim>\<open>flash_set_env\<close> with an empty value is
  \<^verbatim>\<open>flash_del_env\<close>: on a cache that holds \<open>abc=123\<close> it succeeds, and \<^verbatim>\<open>flash_get_env\<close>
  then returns NULL, not the empty string. And the delete inside \<^verbatim>\<open>flash_set_env\<close> moves
  4 bytes too few for a record of 4 bytes: with the records \<open>a=1\<close> and \<open>bcd=efgh\<close> in the
  cache, setting \<open>a\<close> to \<open>2\<close> succeeds, the record is appended behind bytes without a
  terminator, and \<^verbatim>\<open>flash_get_env\<close> returns \<open>efghefgha=2\<close>. Both runs are on the CRC build.
\<close>

theorem flash_set_env_empty_value_counterexample:
  "map_option fst (flash_set_env (example_cfg True []) ''abc'' []
      (example_state (stale 56 (''abc=123'' @ [NUL])) 0x1020 [])) = Some FLASH_NO_ERR
   \<and> flash_get_env (example_cfg True []) ''abc''
       (snd (the (flash_set_env (example_cfg True []) ''abc'' []
          (example_state (stale 56 (''abc=123'' @ [NUL])) 0x1020 [])))) = Some None
   \<and> map_option fst (flash_set_env (example_cfg True []) ''a'' ''2''
       (example_state (stale 56 (''a=1'' @ [NUL] @ ''bcd=efgh'' @ [NUL, NUL, NUL, NUL]))
          0x1028 [])) = Some FLASH_NO_ERR
   \<and> flash_get_env (example_cfg True []) ''a''
       (snd (the (flash_set_env (example_cfg True []) ''a'' ''2''
          (example_state (stale 56 (''a=1'' @ [NUL] @ ''bcd=efgh'' @ [NUL, NUL, NUL, NUL]))
             0x1028 []))))
     = Some (Some ''efghefgha=2'')"
  by (simp add: run_simps)

text \<open>
  Claim C6, amended. For a key that is not empty and has no equal sign, and a value that is
  not empty (both C strings, without NUL): when \<^verbatim>\<open>flash_set_env\<close> returns \<^verbatim>\<open>FLASH_NO_ERR\<close>, and
  the detail part to which it appends the record (the cache after the delete of a key found
  before) is empty or ends with a NUL byte, \<^verbatim>\<open>flash_get_env\<close> of the key returns exactly the
  value. The cache buffer is shorter than \<open>2^32\<close> bytes. A value of length 0
  makes \<^verbatim>\<open>flash_set_env\<close> delete the key and is not covered.
\<close>

theorem flash_set_env_then_get:
  assumes key: "key \<noteq> []" "CHR ''='' \<notin> set key" "NUL \<notin> set key"
    and val: "val \<noteq> []" "NUL \<notin> set val"
    and st: "flash_set_env cfg key val s = Some (FLASH_NO_ERR, s')"
    and wf: "detail_ends_with_nul cfg (set_env_create_state cfg key s)"
    and len: "length (cache_detail s) < 2 ^ 32"
  shows "flash_get_env cfg key s' = Some (Some val)"
proof -
  let ?s1 = "set_env_create_state cfg key s"
  from st val(1) obtain found where f: "find_env cfg key s = Some found"
    by (auto simp: flash_set_env_def split: Option.bind_splits)
  have cr: "create_env cfg key val ?s1 = Some (FLASH_NO_ERR, s')"
    and l1: "length (cache_detail ?s1) = length (cache_detail s)"
  proof -
    show "create_env cfg key val ?s1 = Some (FLASH_NO_ERR, s')"
      using st val(1) f
      by (cases found)
        (auto simp: flash_set_env_def set_env_create_state_def
          split: Option.bind_splits if_splits)
    show "length (cache_detail ?s1) = length (cache_detail s)"
      using f flash_del_env_length [of cfg key s]
      by (cases found) (auto simp: set_env_create_state_def split: option.splits)
  qed
  from len l1 have "length (cache_detail ?s1) < 2 ^ 32" by simp
  from create_env_then_get [OF key val(2) cr wf this] show ?thesis .
qed

text \<open>Replacing the value of \<open>abc\<close> in a cache that holds \<open>abc=123\<close> and \<open>b=2\<close> by a
  value of 5 bytes, on the CRC build.\<close>

theorem flash_set_env_then_get_witness:
  "map_option fst (flash_set_env (example_cfg True []) ''abc'' ''45678''
      (example_state (stale 56 (''abc=123'' @ [NUL] @ ''b=2'' @ [NUL])) 0x1024 []))
     = Some FLASH_NO_ERR
   \<and> flash_get_env (example_cfg True []) ''abc''
       (snd (the (flash_set_env (example_cfg True []) ''abc'' ''45678''
          (example_state (stale 56 (''abc=123'' @ [NUL] @ ''b=2'' @ [NUL])) 0x1024 []))))
      = Some (Some ''45678'')"
proof -
  let ?cfg = "example_cfg True []"
  let ?s = "example_state (stale 56 (''abc=123'' @ [NUL] @ ''b=2'' @ [NUL])) 0x1024 []"
  have "\<exists>s'. flash_set_env ?cfg ''abc'' ''45678'' ?s = Some (FLASH_NO_ERR, s')"
    by (simp add: run_simps)
  then obtain s' where st: "flash_set_env ?cfg ''abc'' ''45678'' ?s = Some (FLASH_NO_ERR, s')"
    by blast
  have wf: "detail_ends_with_nul ?cfg (set_env_create_state ?cfg ''abc'' ?s)"
    by (simp add: detail_ends_with_nul_def set_env_create_state_def run_simps)
  have len: "length (cache_detail ?s) < 2 ^ 32" by (simp add: example_defs)
  have "flash_get_env ?cfg ''abc'' s' = Some (Some ''45678'')"
    by (rule flash_set_env_then_get [OF _ _ _ _ _ st wf len]) simp_all
  with st show ?thesis by simp
qed

subsection \<open>Setting a value in a padded cache\<close>

lemma cstr_at_terminator:
  assumes "cstr_at d p = Some r"
  shows "p + length r < length d" and "d ! (p + length r) = NUL"
    and "r \<noteq> [] \<Longrightarrow> d ! p \<noteq> NUL"
proof -
  from assms obtain rest where d: "drop p d = r @ NUL # rest" and nz: "NUL \<notin> set r"
    unfolding cstr_at_Some_iff by blast
  have "length (drop p d) = length r + 1 + length rest" by (simp add: d)
  then show l: "p + length r < length d" by simp
  have "d ! (p + length r) = drop p d ! length r" using l by simp
  then show "d ! (p + length r) = NUL" by (simp add: d)
  assume "r \<noteq> []"
  then have "drop p d ! 0 = r ! 0" using d by (simp add: nth_append)
  moreover have "r ! 0 \<in> set r" using \<open>r \<noteq> []\<close> by simp
  moreover have "d ! p = drop p d ! 0" using l by simp
  ultimately show "d ! p \<noteq> NUL" using nz by metis
qed

lemma find_env_loop_found:
  assumes "find_env_loop d key n p = Some (Some q)" and "p = 0 \<or> d ! (p - 1) = NUL"
  shows "q < n \<and> (q = 0 \<or> d ! (q - 1) = NUL)
         \<and> (\<exists>r. cstr_at d q = Some r \<and> env_matches r key)"
  using assms
proof (induction d key n p rule: find_env_loop.induct)
  case (1 buf key env_end env)
  from "1.prems"(1) have lt: "env < env_end"
    by (subst (asm) find_env_loop.simps) (auto split: if_splits)
  with "1.prems"(1) obtain r where r: "cstr_at buf env = Some r"
    by (subst (asm) find_env_loop.simps) (auto split: option.splits)
  show ?case
  proof (cases "env_matches r key")
    case True
    with "1.prems"(1) lt r have "q = env"
      by (subst (asm) find_env_loop.simps) simp
    with lt r True "1.prems"(2) show ?thesis by blast
  next
    case False
    with "1.prems"(1) lt r
    have rec: "find_env_loop buf key env_end (env + length r + 1) = Some (Some q)"
      by (subst (asm) find_env_loop.simps) simp
    from cstr_at_terminator(2) [OF r]
    have "env + length r + 1 = 0 \<or> buf ! (env + length r + 1 - 1) = NUL" by simp
    from "1.IH" [OF lt r False rec this] show ?thesis .
  qed
qed


lemma unat_align4_u32:
  assumes "n + 3 < 2 ^ 32"
  shows "unat (align4 (of_nat n :: u32)) = ((n + 3) div 4) * 4"
proof -
  have n: "unat (of_nat n :: u32) = n" using assms by (simp add: unat_of_nat)
  have m: "unat ((of_nat n :: u32) mod 4) = n mod 4" by (simp add: unat_mod n)
  have d: "unat ((of_nat n :: u32) div 4) = n div 4" by (simp add: unat_div n)
  show ?thesis
  proof (cases "n mod 4 = 0")
    case True
    then have "(of_nat n :: u32) mod 4 = 0" using m by (metis unat_eq_zero)
    then have "align4 (of_nat n :: u32) = of_nat n" by (simp add: align4_def)
    with n True show ?thesis by presburger
  next
    case False
    then have nz: "(of_nat n :: u32) mod 4 \<noteq> 0" using m by (metis unat_0)
    have b: "(n div 4 + 1) * 4 < 4294967296" using assms False by simp presburger
    then have b1: "n div 4 + 1 < 4294967296" by simp
    have "unat ((of_nat n :: u32) div 4 + 1) = unat ((of_nat n :: u32) div 4) + unat (1 :: u32)"
      by (rule unat_add_lem [THEN iffD1]) (use b1 in \<open>simp add: d\<close>)
    then have 1: "unat ((of_nat n :: u32) div 4 + 1) = n div 4 + 1" by (simp add: d)
    have "unat (((of_nat n :: u32) div 4 + 1) * 4) =
        unat ((of_nat n :: u32) div 4 + 1) * unat (4 :: u32)"
      by (rule unat_mult_lem [THEN iffD1]) (use b in \<open>simp add: 1\<close>)
    then have "unat (((of_nat n :: u32) div 4 + 1) * 4) = (n div 4 + 1) * 4" by (simp add: 1)
    moreover have "(n div 4 + 1) * 4 = ((n + 3) div 4) * 4" using False by presburger
    ultimately show ?thesis using nz by (simp add: align4_def)
  qed
qed

lemma flash_del_env_ok:
  assumes "flash_del_env cfg key s = Some (FLASH_NO_ERR, s1)"
  shows "\<exists>q r sz d1. key \<noteq> [] \<and> find_env cfg key s = Some (Some q)
      \<and> cstr_at (cache_detail s) q = Some r
      \<and> get_env_detail_size cfg s = Some sz
      \<and> memcpy (cache_detail s) q (q + unat (align4 ((of_nat (length r) :: u32) + 1)))
            (unat (sz - (ENV_PARAM_PART_BYTE_SIZE cfg + of_nat q))) = Some d1
      \<and> s1 = s\<lparr>cache_detail := d1,
               cache_end_addr := cache_end_addr s - align4 ((of_nat (length r) :: u32) + 1)\<rparr>"
  using assms
  by (auto simp: flash_del_env_def Let_def set_env_detail_end_addr_def
      get_env_detail_end_addr_def split: Option.bind_splits if_splits option.splits)

lemma flash_del_env_keeps_terminator:
  assumes pad: "detail_padded cfg s" and crc: "\<not> crc_check cfg"
    and del: "flash_del_env cfg key s = Some (FLASH_NO_ERR, s1)"
  shows "detail_ends_with_nul cfg s1"
proof -
  let ?d = "cache_detail s"
  from flash_del_env_ok [OF del] obtain q r sz d1 where key: "key \<noteq> []"
    and f: "find_env cfg key s = Some (Some q)"
    and r: "cstr_at ?d q = Some r"
    and sz: "get_env_detail_size cfg s = Some sz"
    and mc: "memcpy ?d q (q + unat (align4 ((of_nat (length r) :: u32) + 1)))
            (unat (sz - (ENV_PARAM_PART_BYTE_SIZE cfg + of_nat q))) = Some d1"
    and s1: "s1 = s\<lparr>cache_detail := d1,
               cache_end_addr := cache_end_addr s - align4 ((of_nat (length r) :: u32) + 1)\<rparr>"
    by blast
  let ?n = "unat sz"
  let ?L = "((length r + 1 + 3) div 4) * 4"
  from sz have cur: "cur_using_data_addr s \<noteq> 0"
    by (auto simp: get_env_detail_size_def get_env_detail_addr_def FLASH_ASSERT_def
        split: Option.bind_splits if_splits)
  from pad sz have nl: "?n \<le> length ?d" and n4: "?n mod 4 = 0"
    and z: "sz = 0 \<or> ?d ! (?n - 1) = NUL"
    and pd: "\<And>p. p < ?n \<Longrightarrow> p mod 4 \<noteq> 0 \<Longrightarrow> ?d ! (p - 1) = NUL \<Longrightarrow> ?d ! p = NUL"
    by (auto simp: detail_padded_def list_all_iff split: if_splits)
  from f key cur sz have szn: "sz \<noteq> 0" and lp: "find_env_loop ?d key ?n 0 = Some (Some q)"
    by (auto simp: find_env_def FLASH_ASSERT_def split: if_splits)
  from find_env_loop_found [OF lp] r
  have qn: "q < ?n" and qz: "q = 0 \<or> ?d ! (q - 1) = NUL" and em: "env_matches r key"
    by auto
  from em key have rne: "r \<noteq> []" by (cases r) (auto simp: env_matches_def)
  from cstr_at_terminator(3) [OF r rne] have "?d ! q \<noteq> NUL" .
  with pd [OF qn] qz have q4: "q mod 4 = 0" by (cases "q = 0") auto
  from szn z have zz: "?d ! (?n - 1) = NUL" by simp
  from cstr_at_before_nul [OF r qn nl zz] have qr: "q + length r < ?n" .
  with q4 n4 have qL: "q + ?L \<le> ?n" by presburger
  have n32: "?n < 2 ^ 32" using unsigned_less [of sz, where ?'a = nat] by simp
  have "length r + 1 + 3 \<le> ?L + 3" by presburger
  moreover have "?L + 3 < 2 ^ 32"
  proof -
    have "?L \<le> ?n" using qL by simp
    moreover have "?n + 3 < 2 ^ 32"
    proof -
      have "?n \<noteq> 4294967293" "?n \<noteq> 4294967294" "?n \<noteq> 4294967295"
        using n4 by auto
      with n32 show ?thesis by simp
    qed
    ultimately show ?thesis by simp
  qed
  ultimately have "length r + 1 + 3 < 2 ^ 32" by simp
  from unat_align4_u32 [OF this]
  have dl: "unat (align4 ((of_nat (length r) :: u32) + 1)) = ?L" by (simp add: add.commute)
  have L4: "4 \<le> ?L" by presburger
  \<comment> \<open>the number of bytes moved\<close>
  have qw: "unat (of_nat q :: u32) = q" using qn n32 by (simp add: unat_of_nat)
  have "unat (4 + of_nat q :: u32) = unat (4 :: u32) + unat (of_nat q :: u32)"
    by (rule unat_add_lem [THEN iffD1]) (use qw qL L4 n32 in simp)
  then have pq: "unat (4 + of_nat q :: u32) = 4 + q" by (simp add: qw)
  have "4 + of_nat q \<le> sz" using pq qL L4 by (simp add: word_le_nat_alt)
  then have rem: "unat (sz - (ENV_PARAM_PART_BYTE_SIZE cfg + of_nat q)) = ?n - 4 - q"
    using crc pq by (simp add: ENV_PARAM_PART_BYTE_SIZE_def unat_sub)
  \<comment> \<open>the new detail size\<close>
  have "align4 ((of_nat (length r) :: u32) + 1) \<le> sz"
    using dl qL by (simp add: word_le_nat_alt)
  then have n1: "unat (sz - align4 ((of_nat (length r) :: u32) + 1)) = ?n - ?L"
    by (simp add: unat_sub dl)
  have sz1: "get_env_detail_size cfg s1 = Some (sz - align4 ((of_nat (length r) :: u32) + 1))"
    using sz cur unfolding s1
    by (auto simp: get_env_detail_size_def get_env_detail_addr_def get_env_detail_end_addr_def
        FLASH_ASSERT_def split: Option.bind_splits if_splits)
  have d1: "cache_detail s1 = d1" by (simp add: s1)
  have l1: "length d1 = length ?d" using memcpy_length [OF mc] .
  show ?thesis
  proof (cases "?n - ?L = 0")
    case True
    then have "sz - align4 ((of_nat (length r) :: u32) + 1) = 0"
      using n1 by (metis unat_eq_zero)
    then show ?thesis by (simp add: detail_ends_with_nul_def sz1)
  next
    case False
    have "d1 ! (?n - ?L - 1) = NUL"
    proof (cases "q + ?L = ?n")
      case True
      then have qe: "?n - ?L = q" by simp
      with False have q0: "q \<noteq> 0" by simp
      have "d1 ! (q - 1) = ?d ! (q - 1)"
        using mc q0 qn nl by (auto simp: memcpy_def nth_append split: if_splits)
      with qz q0 qe show ?thesis by simp
    next
      case ne: False
      with qL q4 n4 have gap: "q + ?L + 4 \<le> ?n" by presburger
      then have r0: "?n - 4 - q \<noteq> 0" using L4 by simp
      from mc r0 have d1eq: "d1 = take q ?d @ take (?n - 4 - q) (drop (q + ?L) ?d)
          @ drop (q + (?n - 4 - q)) ?d"
        unfolding dl rem by (auto simp: memcpy_def split: if_splits)
      have i1: "q \<le> ?n - ?L - 1" using gap by simp
      have i2: "?n - ?L - 1 - q < ?n - 4 - q" using gap L4 by simp
      have i3: "?n - ?L - 1 - q < length (drop (q + ?L) ?d)" using gap nl by simp
      have i4: "q + ?L \<le> length ?d" using qL nl by simp
      have "d1 ! (?n - ?L - 1) = take (?n - 4 - q) (drop (q + ?L) ?d) ! (?n - ?L - 1 - q)"
        unfolding d1eq using i1 i2 i3 qn nl by (simp add: nth_append)
      also have "\<dots> = drop (q + ?L) ?d ! (?n - ?L - 1 - q)"
        using i2 by simp
      also have "\<dots> = ?d ! (q + ?L + (?n - ?L - 1 - q))"
        using i4 by (rule nth_drop)
      finally have "d1 ! (?n - ?L - 1) = ?d ! (q + ?L + (?n - ?L - 1 - q))" .
      also have "q + ?L + (?n - ?L - 1 - q) = ?n - 1" using gap by simp
      finally show ?thesis using zz by simp
    qed
    moreover have "?n - ?L \<le> length d1" using nl l1 by simp
    ultimately show ?thesis
      by (simp add: detail_ends_with_nul_def sz1 d1 n1)
  qed
qed

text \<open>The proviso of the amended claim C6 is met by every padded cache in a build without
  CRC, where \<^verbatim>\<open>flash_del_env\<close> moves all the bytes behind the record: there a
  \<^verbatim>\<open>flash_set_env\<close> with a value that is not empty, once it succeeds, is followed by a
  \<^verbatim>\<open>flash_get_env\<close> of that value, for a key that was present as for one that was not.\<close>

lemma detail_padded_ends_with_nul:
  "detail_padded cfg s \<Longrightarrow> detail_ends_with_nul cfg s"
  by (auto simp: detail_padded_def detail_ends_with_nul_def split: option.splits)

lemma flash_set_env_then_get_padded:
  assumes key: "key \<noteq> []" "CHR ''='' \<notin> set key" "NUL \<notin> set key"
    and val: "val \<noteq> []" "NUL \<notin> set val"
    and st: "flash_set_env cfg key val s = Some (FLASH_NO_ERR, s')"
    and pad: "detail_padded cfg s" and crc: "\<not> crc_check cfg"
    and len: "length (cache_detail s) < 2 ^ 32"
  shows "flash_get_env cfg key s' = Some (Some val)"
proof -
  from st val(1) obtain found where f: "find_env cfg key s = Some found"
    by (auto simp: flash_set_env_def split: Option.bind_splits)
  show ?thesis
  proof (cases found)
    case None
    with st val(1) f have cr: "create_env cfg key val s = Some (FLASH_NO_ERR, s')"
      by (auto simp: flash_set_env_def split: Option.bind_splits if_splits)
    from create_env_then_get [OF key val(2) cr detail_padded_ends_with_nul [OF pad] len]
    show ?thesis .
  next
    case (Some q)
    with st val(1) f obtain s1 where del: "flash_del_env cfg key s = Some (FLASH_NO_ERR, s1)"
      and cr: "create_env cfg key val s1 = Some (FLASH_NO_ERR, s')"
      by (auto simp: flash_set_env_def split: Option.bind_splits if_splits)
    from flash_del_env_length [OF del] len have "length (cache_detail s1) < 2 ^ 32" by simp
    from create_env_then_get [OF key val(2) cr flash_del_env_keeps_terminator [OF pad crc del] this]
    show ?thesis .
  qed
qed

text \<open>The cache that holds \<open>a=1\<close> and \<open>b=2\<close> is padded.\<close>

lemma padded_example:
  "detail_padded (example_cfg False [])
     (example_state (stale 60 (''a=1'' @ [NUL] @ ''b=2'' @ [NUL])) 0x101C [])"
  by (simp add: detail_padded_def run_simps upt_rec)

end
